theory Spec2Isabelle
  imports Complex_Main "HOL-Library.Log_Nat" "HOL-Library.Sublist"
begin

section \<open>Format selector\<close>

text \<open>
  Python's \<^verbatim>\<open>s.replace(c, '')\<close> for a one-character \<open>c\<close> deletes every
  occurrence of \<open>c\<close>.
\<close>

definition str_remove :: "char \<Rightarrow> string \<Rightarrow> string" where
  "str_remove c s = filter (\<lambda>x. x \<noteq> c) s"

text \<open>
  \<^verbatim>\<open>_get_format_string\<close>: the two Tk variables it reads are its arguments here.
\<close>

definition get_format_string :: "string \<Rightarrow> string \<Rightarrow> string" where
  "get_format_string quality format_ext =
     (if quality = ''best'' then ''best[ext='' @ format_ext @ '']/best''
      else if quality = ''worst'' then ''worst[ext='' @ format_ext @ '']/worst''
      else (let height = str_remove CHR ''p'' quality
            in ''best[height<='' @ height @ ''][ext='' @ format_ext @ '']/best[height<=''
               @ height @ '']/best''))"

section \<open>Command line of the download runner\<close>

text \<open>
  Truthiness of an optional string or list, as Python's \<^verbatim>\<open>if x:\<close> reads it:
  \<^verbatim>\<open>None\<close> and the empty sequence are false.
\<close>

fun truthy :: "'a list option \<Rightarrow> bool" where
  "truthy None = False"
| "truthy (Some xs) = (xs \<noteq> [])"

text \<open>
  The command \<^verbatim>\<open>_run_yt_dlp_download\<close> builds, statement by statement. The
  auxiliary-tool location is appended twice when given, as the source does.
\<close>

definition build_cmd ::
  "string \<Rightarrow> string \<Rightarrow> string \<Rightarrow> string \<Rightarrow> string option \<Rightarrow> string list option \<Rightarrow> string list"
where
  "build_cmd exe_path url outtmpl format_string ffmpeg_location extra_args =
     (let cmd = [exe_path];
          cmd = (if truthy extra_args then cmd @ the extra_args else cmd);
          cmd = cmd @ [''-f'', format_string, ''-o'', outtmpl];
          cmd = (if truthy ffmpeg_location then cmd @ [''--ffmpeg-location'', the ffmpeg_location] else cmd);
          cmd = cmd @ [''--newline''];
          cmd = cmd @ [url];
          cmd = (if truthy ffmpeg_location then cmd @ [''--ffmpeg-location'', the ffmpeg_location] else cmd)
      in cmd)"

section \<open>Regular expressions as the source writes them\<close>

text \<open>
  The patterns of the source use literals, character classes with a counted or an
  unbounded greedy repetition, sequence, alternation and the greedy option. Text is a
  list of characters, each a code point below 256. Among those the class \<^verbatim>\<open>\d\<close> is
  the ten ASCII digits, the dot is any character but the newline, and a negated set is
  any character outside it, the newline included.
\<close>

datatype cclass = Digit | AnyChar | NoneOf string

fun cmatch :: "cclass \<Rightarrow> char \<Rightarrow> bool" where
  "cmatch Digit c = (c \<in> set ''0123456789'')"
| "cmatch AnyChar c = (c \<noteq> CHR 0x0A)"
| "cmatch (NoneOf cs) c = (c \<notin> set cs)"

datatype rx =
    Lit string
  | Rep cclass nat nat
  | Plus cclass
  | Seq rx rx
  | Alt rx rx
  | Opt rx

text \<open>
  Python's \<^verbatim>\<open>re\<close> is a backtracking matcher. \<open>rmatch r s\<close> lists every way \<open>r\<close>
  matches at the start of \<open>s\<close>, as (matched text, rest), in the order the matcher tries
  them: a greedy repetition longest first, the left alternative first, the option taken
  before it is skipped.
\<close>

definition run_len :: "cclass \<Rightarrow> string \<Rightarrow> nat" where
  "run_len c s = length (takeWhile (cmatch c) s)"

definition splits_desc :: "nat \<Rightarrow> nat \<Rightarrow> string \<Rightarrow> (string \<times> string) list" where
  "splits_desc lo hi s = map (\<lambda>k. (take k s, drop k s)) (rev [lo..<Suc hi])"

fun rmatch :: "rx \<Rightarrow> string \<Rightarrow> (string \<times> string) list" where
  "rmatch (Lit l) s = (if prefix l s then [(l, drop (length l) s)] else [])"
| "rmatch (Rep c lo hi) s = splits_desc lo (min hi (run_len c s)) s"
| "rmatch (Plus c) s = splits_desc 1 (run_len c s) s"
| "rmatch (Seq a b) s =
     concat (map (\<lambda>(m1, r1). map (\<lambda>(m2, r2). (m1 @ m2, r2)) (rmatch b r1)) (rmatch a s))"
| "rmatch (Alt a b) s = rmatch a s @ rmatch b s"
| "rmatch (Opt a) s = rmatch a s @ [([], s)]"

text \<open>\<^verbatim>\<open>re.match(s) is not None\<close>: the pattern matches at the start of \<open>s\<close>.\<close>

definition re_match :: "rx \<Rightarrow> string \<Rightarrow> bool" where
  "re_match r s = (rmatch r s \<noteq> [])"

text \<open>
  \<^verbatim>\<open>re.search\<close> for a pattern of the shape \<^verbatim>\<open>(g)a\<close>: group 1 of the first match,
  trying start positions from the left and, at each position, the matches of \<open>g\<close> in
  the matcher's order until \<open>a\<close> matches what follows.
\<close>

fun first_group :: "rx \<Rightarrow> (string \<times> string) list \<Rightarrow> string option" where
  "first_group a [] = None"
| "first_group a ((m, r) # ms) = (if re_match a r then Some m else first_group a ms)"

fun re_search_group :: "rx \<Rightarrow> rx \<Rightarrow> string \<Rightarrow> string option" where
  "re_search_group g a [] = first_group a (rmatch g [])"
| "re_search_group g a (c # cs) =
     (case first_group a (rmatch g (c # cs)) of
        Some m \<Rightarrow> Some m
      | None \<Rightarrow> re_search_group g a cs)"

section \<open>URL validator\<close>

text \<open>
  \<^verbatim>\<open>(https?://)?(www\.)?(youtube|youtu|youtube-nocookie)\.(com|be)/\<close>
  \<^verbatim>\<open>(watch\?v=|embed/|v/|.+\?v=)?([^&=%\?]{11})\<close>
\<close>

definition scheme_rx :: rx where
  "scheme_rx = Opt (Seq (Lit ''http'') (Seq (Opt (Lit ''s'')) (Lit ''://'')))"

definition www_rx :: rx where
  "www_rx = Opt (Lit ''www.'')"

definition host_rx :: rx where
  "host_rx = Alt (Lit ''youtube'') (Alt (Lit ''youtu'') (Lit ''youtube-nocookie''))"

definition tld_rx :: rx where
  "tld_rx = Alt (Lit ''com'') (Lit ''be'')"

definition form_rx :: rx where
  "form_rx = Opt (Alt (Lit ''watch?v='') (Alt (Lit ''embed/'') (Alt (Lit ''v/'')
                 (Seq (Plus AnyChar) (Lit ''?v='')))))"

definition url_prefix_rx :: rx where
  "url_prefix_rx =
     Seq scheme_rx (Seq www_rx (Seq host_rx (Seq (Lit ''.'') (Seq tld_rx (Seq (Lit ''/'') form_rx)))))"

definition video_id_rx :: rx where
  "video_id_rx = Rep (NoneOf ''&=%?'') 11 11"

definition youtube_regex :: rx where
  "youtube_regex = Seq url_prefix_rx video_id_rx"

definition is_valid_youtube_url :: "string \<Rightarrow> bool" where
  "is_valid_youtube_url url = re_match youtube_regex url"

section \<open>Progress lines\<close>

text \<open>
  \<^verbatim>\<open>str.strip()\<close> removes leading and trailing whitespace. A character here is a
  code point below 256; the whitespace among those is 9 to 13, 28 to 32, 133 (next
  line) and 160 (no-break space).
\<close>

definition is_space :: "char \<Rightarrow> bool" where
  "is_space c =
     (let n = of_char c :: nat
      in (9 \<le> n \<and> n \<le> 13) \<or> (28 \<le> n \<and> n \<le> 32) \<or> n = 133 \<or> n = 160)"

definition strip :: "string \<Rightarrow> string" where
  "strip s = rev (dropWhile is_space (rev (dropWhile is_space s)))"

text \<open>The groups of \<^verbatim>\<open>(\d{1,3}\.\d)%\<close> and \<^verbatim>\<open>(\d{1,3})%\<close>, and what follows them.\<close>

definition pct_decimal_group :: rx where
  "pct_decimal_group = Seq (Rep Digit 1 3) (Seq (Lit ''.'') (Rep Digit 1 1))"

definition pct_integer_group :: rx where
  "pct_integer_group = Rep Digit 1 3"

definition pct_sign :: rx where
  "pct_sign = Lit ''%''"

section \<open>Numbers and their text\<close>

text \<open>\<^verbatim>\<open>str(n)\<close> for an integer: decimal digits, a minus sign when negative.\<close>

definition digit_char :: "nat \<Rightarrow> char" where
  "digit_char d = char_of (48 + d)"

fun show_nat :: "nat \<Rightarrow> string" where
  "show_nat n = (if n < 10 then [digit_char n] else show_nat (n div 10) @ [digit_char (n mod 10)])"

declare show_nat.simps [simp del]

definition show_int :: "int \<Rightarrow> string" where
  "show_int i = (if i < 0 then CHR ''-'' # show_nat (nat (- i)) else show_nat (nat i))"

text \<open>
  A Python float is a binary64 number; the model keeps its exact value as a rational.
  \<open>binary64 x\<close> is the float nearest to \<open>x\<close>, ties to the even significand: 53
  significant bits, the exponent of the last bit never below \<open>-1074\<close>. Values too large
  for a float are the caller's business (\<open>py_truediv\<close> below).
\<close>

definition round_half_even :: "rat \<Rightarrow> int" where
  "round_half_even x =
     (let f = \<lfloor>x\<rfloor>; r = x - of_int f
      in if r < 1 / 2 then f else if 1 / 2 < r then f + 1 else if even f then f else f + 1)"

definition ilog2 :: "rat \<Rightarrow> int" where
  "ilog2 x =
     (let (a, b) = quotient_of x;
          d = int (floorlog 2 (nat a)) - int (floorlog 2 (nat b))
      in if 2 powi d \<le> x then d else d - 1)"

definition binary64 :: "rat \<Rightarrow> rat" where
  "binary64 x =
     (if x = 0 then 0
      else (let a = \<bar>x\<bar>;
                q = max (ilog2 a) (- 1022) - 52;
                m = round_half_even (a / 2 powi q)
            in sgn x * of_int m * 2 powi q))"

datatype error =
    RuntimeError string
  | OverflowError string
  | ZeroDivisionError string
  | OSError string
  | ImportError string
  | LibraryError string
  | UnicodeDecodeError string

fun str_of :: "error \<Rightarrow> string" where
  "str_of (RuntimeError m) = m"
| "str_of (OverflowError m) = m"
| "str_of (ZeroDivisionError m) = m"
| "str_of (OSError m) = m"
| "str_of (ImportError m) = m"
| "str_of (LibraryError m) = m"
| "str_of (UnicodeDecodeError m) = m"

text \<open>\<^verbatim>\<open>a / b\<close> on integers: the correctly rounded quotient, or an error.\<close>

definition py_truediv :: "int \<Rightarrow> int \<Rightarrow> error + rat" where
  "py_truediv a b =
     (if b = 0 then Inl (ZeroDivisionError ''division by zero'')
      else (let r = binary64 (of_int a / of_int b)
            in if 2 ^ 1024 \<le> \<bar>r\<bar>
               then Inl (OverflowError ''integer division result too large for a float'')
               else Inr r))"

text \<open>
  \<^verbatim>\<open>f"{x:.1f}"\<close>: the float's exact value rounded to one decimal, ties to even.
\<close>

definition show_tenths :: "int \<Rightarrow> string" where
  "show_tenths t = show_nat (nat (t div 10)) @ ''.'' @ show_nat (nat (t mod 10))"

definition format_1f :: "rat \<Rightarrow> string" where
  "format_1f x =
     (if x < 0 then CHR ''-'' # show_tenths (round_half_even (10 * \<bar>x\<bar>))
      else show_tenths (round_half_even (10 * x)))"

text \<open>
  \<^verbatim>\<open>float(s)\<close> on the texts the progress patterns can capture: decimal digits,
  or digits, a point and digits. The result is the float nearest to the decimal. Any
  other text is read as the \<^verbatim>\<open>ValueError\<close> branch (\<open>None\<close>); Python accepts
  more (signs, exponents, blanks), none of which a captured group can contain.
\<close>

definition digit_val :: "char \<Rightarrow> nat" where
  "digit_val c = of_char c - 48"

definition digits_val :: "string \<Rightarrow> nat" where
  "digits_val ds = foldl (\<lambda>a c. 10 * a + digit_val c) 0 ds"

definition is_digits :: "string \<Rightarrow> bool" where
  "is_digits ds = (ds \<noteq> [] \<and> list_all (cmatch Digit) ds)"

definition is_decimal :: "string \<Rightarrow> bool" where
  "is_decimal s =
     (let ip = takeWhile (\<lambda>c. c \<noteq> CHR ''.'') s;
          rest = dropWhile (\<lambda>c. c \<noteq> CHR ''.'') s
      in is_digits ip \<and> (rest = [] \<or> is_digits (tl rest)))"

definition decimal_of :: "string \<Rightarrow> rat" where
  "decimal_of s =
     (let ip = takeWhile (\<lambda>c. c \<noteq> CHR ''.'') s;
          fp = drop (Suc (length ip)) s
      in of_nat (digits_val (ip @ fp)) / 10 ^ length fp)"

definition py_float :: "string \<Rightarrow> rat option" where
  "py_float s = (if is_decimal s then Some (binary64 (decimal_of s)) else None)"

section \<open>View count\<close>

text \<open>
  The view-count branch of \<^verbatim>\<open>_get_video_info_thread\<close>. An error is what the
  surrounding \<^verbatim>\<open>except\<close> reports instead of the summary.
\<close>

definition view_str :: "int \<Rightarrow> error + string" where
  "view_str view_count =
     (if view_count \<noteq> 0 then
        (if view_count \<ge> 1000000 then
           (case py_truediv view_count 1000000 of
              Inl e \<Rightarrow> Inl e
            | Inr q \<Rightarrow> Inr (format_1f q @ ''M views''))
         else if view_count \<ge> 1000 then
           (case py_truediv view_count 1000 of
              Inl e \<Rightarrow> Inl e
            | Inr q \<Rightarrow> Inr (format_1f q @ ''K views''))
         else Inr (show_int view_count @ '' views''))
      else Inr ''Unknown views'')"

section \<open>Download runner\<close>

text \<open>
  A progress callback changes the caller's state; \<open>None\<close> is no callback. The only
  callback the program passes never raises (its body is inside
  \<^verbatim>\<open>try ... except Exception: pass\<close>).
\<close>

type_synonym 's progress_callback = "rat \<Rightarrow> string \<Rightarrow> 's \<Rightarrow> 's"

fun call_cb :: "'s progress_callback option \<Rightarrow> rat \<Rightarrow> string \<Rightarrow> 's \<Rightarrow> 's" where
  "call_cb None percent line s = s"
| "call_cb (Some f) percent line s = f percent line s"

text \<open>The body of the loop over the output lines.\<close>

definition handle_line :: "'s progress_callback option \<Rightarrow> string \<Rightarrow> 's \<Rightarrow> 's" where
  "handle_line progress_callback raw s =
     (let line = strip raw;
          m = (case re_search_group pct_decimal_group pct_sign line of
                 Some g \<Rightarrow> Some g
               | None \<Rightarrow> re_search_group pct_integer_group pct_sign line)
      in case m of
           Some g \<Rightarrow>
             (case py_float g of
                Some percent \<Rightarrow> call_cb progress_callback percent line s
              | None \<Rightarrow> call_cb progress_callback (- 1) line s)
         | None \<Rightarrow> call_cb progress_callback (- 1) line s)"

fun read_lines :: "'s progress_callback option \<Rightarrow> string list \<Rightarrow> 's \<Rightarrow> 's" where
  "read_lines progress_callback [] s = s"
| "read_lines progress_callback (raw # more) s =
     read_lines progress_callback more (handle_line progress_callback raw s)"

text \<open>
  One run of the external process, as the runner meets it: the process cannot be
  started; or reading its output raises after some lines (the output is decoded as
  text, strictly), whatever code the process ends with; or all its lines are read and
  it exits with a code.
\<close>

datatype run =
    CannotStart error
  | ReadFails "string list" error int
  | Exits "string list" int

type_synonym process = "string list \<Rightarrow> run"

text \<open>
  The second half of \<^verbatim>\<open>_run_yt_dlp_download\<close>: start the process, read its lines,
  wait for it, raise on a non-zero exit code. The loop over the lines is not inside
  any \<^verbatim>\<open>try\<close> of the runner, so an error while reading leaves the runner at once.
\<close>

definition run_cmd ::
  "process \<Rightarrow> string list \<Rightarrow> 's progress_callback option \<Rightarrow> 's \<Rightarrow> 's \<times> (error + unit)"
where
  "run_cmd popen cmd progress_callback s =
     (case popen cmd of
        CannotStart e \<Rightarrow> (s, Inl e)
      | ReadFails out e returncode \<Rightarrow> (read_lines progress_callback out s, Inl e)
      | Exits out returncode \<Rightarrow>
          (let s' = read_lines progress_callback out s
           in if returncode \<noteq> 0
              then (s', Inl (RuntimeError (''yt-dlp exited with '' @ show_int returncode)))
              else (s', Inr ())))"

definition run_yt_dlp_download ::
  "process \<Rightarrow> string \<Rightarrow> string \<Rightarrow> string \<Rightarrow> string \<Rightarrow> string option \<Rightarrow>
   's progress_callback option \<Rightarrow> string list option \<Rightarrow> 's \<Rightarrow> 's \<times> (error + unit)"
where
  "run_yt_dlp_download popen exe_path url outtmpl format_string ffmpeg_location
       progress_callback extra_args s =
     run_cmd popen (build_cmd exe_path url outtmpl format_string ffmpeg_location extra_args)
       progress_callback s"

section \<open>Application state and the foreground thread\<close>

datatype dialog = ShowWarning string string | ShowError string string | ShowInfo string string

text \<open>
  The fields of \<^verbatim>\<open>YouTubeDownloader\<close> the download path reads or writes; the
  message boxes shown so far are kept as a log.
\<close>

record app =
  url_var :: string
  quality_var :: string
  format_var :: string
  download_path :: string
  is_downloading :: bool
  progress_var :: rat
  status_label :: string
  button_state :: string
  button_text :: string
  dialogs :: "dialog list"

text \<open>
  What a worker hands to the foreground thread with \<^verbatim>\<open>root.after(0, f, ...)\<close>:
  a call of \<^verbatim>\<open>_update_progress\<close> or of \<^verbatim>\<open>_download_complete\<close>. The foreground
  thread runs the calls in the order they were posted.
\<close>

datatype ui_event = UpdateProgress rat string | DownloadComplete bool string

definition update_progress :: "rat \<Rightarrow> string \<Rightarrow> app \<Rightarrow> app" where
  "update_progress percent status a =
     (let a = (if percent \<ge> 0 then a\<lparr>progress_var := percent\<rparr> else a)
      in a\<lparr>status_label := status\<rparr>)"

definition download_complete :: "bool \<Rightarrow> string \<Rightarrow> app \<Rightarrow> app" where
  "download_complete success message a =
     (let a = a\<lparr>is_downloading := False\<rparr>;
          a = a\<lparr>button_state := ''normal'', button_text := ''Download Video''\<rparr>;
          a = (if success
               then a\<lparr>dialogs := dialogs a @ [ShowInfo ''Success'' message], progress_var := 100\<rparr>
               else a\<lparr>dialogs := dialogs a @ [ShowError ''Error'' message], progress_var := 0\<rparr>)
      in a\<lparr>status_label := ''Ready to download''\<rparr>)"

fun ui_step :: "ui_event \<Rightarrow> app \<Rightarrow> app" where
  "ui_step (UpdateProgress percent status) a = update_progress percent status a"
| "ui_step (DownloadComplete success message) a = download_complete success message a"

definition run_ui :: "ui_event list \<Rightarrow> app \<Rightarrow> app" where
  "run_ui evs a = fold ui_step evs a"

text \<open>
  \<^verbatim>\<open>start_download\<close>: the guards in the source's order, then the switch to
  Running. The result is the new state and the URL given to the worker thread, when
  one is started. \<open>path_exists\<close> is the file system's answer.
\<close>

definition start_download :: "(string \<Rightarrow> bool) \<Rightarrow> app \<Rightarrow> app \<times> string option" where
  "start_download path_exists a =
     (let url = strip (url_var a)
      in if url = [] then
           (a\<lparr>dialogs := dialogs a @ [ShowWarning ''Warning'' ''Please enter a YouTube URL'']\<rparr>, None)
         else if \<not> is_valid_youtube_url url then
           (a\<lparr>dialogs := dialogs a @ [ShowError ''Error'' ''Please enter a valid YouTube URL'']\<rparr>, None)
         else if \<not> path_exists (download_path a) then
           (a\<lparr>dialogs := dialogs a @ [ShowError ''Error'' ''Download folder does not exist'']\<rparr>, None)
         else if is_downloading a then
           (a\<lparr>dialogs := dialogs a @ [ShowWarning ''Warning'' ''Download already in progress'']\<rparr>, None)
         else
           (a\<lparr>button_state := ''disabled'', button_text := ''Downloading...'',
              is_downloading := True, progress_var := 0\<rparr>, Some url))"

section \<open>Download worker\<close>

text \<open>
  The options handed to the library on the fallback path (the progress hook is always
  the program's own and is left out).
\<close>

record postprocessor =
  pp_key :: string
  preferredcodec :: string
  preferredquality :: string

record ydl_opts =
  opt_format :: string
  opt_outtmpl :: string
  opt_ffmpeg_location :: "string option"
  opt_postprocessors :: "postprocessor list"

text \<open>
  What the worker finds around it: the tool locator's two answers, the external
  process, and the library. The library is \<open>None\<close> when it cannot be imported;
  otherwise a download with given options and URLs yields the calls of
  \<^verbatim>\<open>_update_progress\<close> (percent, status) that the program's hook posted, and either
  returns or raises.
\<close>

record env =
  find_yt_dlp_exe :: "string option"
  locate_ffmpeg :: "string option"
  popen :: process
  yt_dlp :: "(ydl_opts \<Rightarrow> string list \<Rightarrow> (rat \<times> string) list \<times> (error + unit)) option"

text \<open>The hook's calls become posted progress calls; the outcome is kept.\<close>

definition post_progress ::
  "(rat \<times> string) list \<times> (error + unit) \<Rightarrow> ui_event list \<times> (error + unit)" where
  "post_progress r = (map (\<lambda>(percent, status). UpdateProgress percent status) (fst r), snd r)"

text \<open>\<^verbatim>\<open>os.path.join(a, b)\<close> for a relative \<open>b\<close>, POSIX flavour.\<close>

definition path_join :: "string \<Rightarrow> string \<Rightarrow> string" where
  "path_join a b = (if a = [] \<or> last a = CHR ''/'' then a @ b else a @ ''/'' @ b)"

text \<open>The callback both process branches define: it posts a progress call.\<close>

definition progress_cb :: "ui_event list progress_callback" where
  "progress_cb pct status posted =
     (if pct \<ge> 0 then posted @ [UpdateProgress pct status]
      else posted @ [UpdateProgress (- 1) status])"

text \<open>
  The part of \<^verbatim>\<open>_download_thread\<close> inside \<^verbatim>\<open>try\<close>, up to the success call: the
  calls posted and whether an exception left the block.
\<close>

definition download_attempt :: "env \<Rightarrow> app \<Rightarrow> string \<Rightarrow> ui_event list \<times> (error + unit)" where
  "download_attempt e a url =
     (let format_string = get_format_string (quality_var a) (format_var a);
          ffmpeg_dir = locate_ffmpeg e;
          yt_exe = find_yt_dlp_exe e;
          outtmpl = path_join (download_path a) ''%(title)s.%(ext)s''
      in if truthy yt_exe then
           (let fmt = format_string
            in if format_var a \<in> set [''mp3'', ''m4a''] then
                 (let fmt = ''bestaudio/best'';
                      extra_args = [''--extract-audio'', ''--audio-format'', format_var a]
                  in run_yt_dlp_download (popen e) (the yt_exe) url outtmpl fmt ffmpeg_dir
                       (Some progress_cb) (Some extra_args) [])
               else
                 run_yt_dlp_download (popen e) (the yt_exe) url outtmpl fmt ffmpeg_dir
                   (Some progress_cb) None [])
         else
           (case yt_dlp e of
              None \<Rightarrow> ([], Inl (ImportError (''No module named '' @ [CHR 0x27] @ ''yt_dlp'' @ [CHR 0x27])))
            | Some download \<Rightarrow>
                (let opts = \<lparr>opt_format = format_string, opt_outtmpl = outtmpl,
                              opt_ffmpeg_location = None, opt_postprocessors = []\<rparr>;
                     opts = (if truthy ffmpeg_dir then opts\<lparr>opt_ffmpeg_location := ffmpeg_dir\<rparr> else opts);
                     opts = (if format_var a \<in> set [''mp3'', ''m4a'']
                             then opts\<lparr>opt_format := ''bestaudio/best'',
                                       opt_postprocessors :=
                                         [\<lparr>pp_key = ''FFmpegExtractAudio'',
                                           preferredcodec = format_var a,
                                           preferredquality = ''192''\<rparr>]\<rparr>
                             else opts)
                 in post_progress (download opts [url]))))"

text \<open>
  The completion call the worker posts: the success call when the \<^verbatim>\<open>try\<close> block
  ends normally, the failure call of the \<^verbatim>\<open>except\<close> clause otherwise.
\<close>

definition completion :: "error + unit \<Rightarrow> ui_event" where
  "completion r =
     (case r of
        Inr _ \<Rightarrow> DownloadComplete True ''Download completed successfully!''
      | Inl err \<Rightarrow> DownloadComplete False (''Download failed: '' @ str_of err))"

text \<open>\<^verbatim>\<open>_download_thread\<close>: everything the worker posts, in order.\<close>

definition download_thread :: "env \<Rightarrow> app \<Rightarrow> string \<Rightarrow> ui_event list" where
  "download_thread e a url =
     (let (posted, r) = download_attempt e a url in posted @ [completion r])"

fun is_progress :: "ui_event \<Rightarrow> bool" where
  "is_progress (UpdateProgress percent status) = True"
| "is_progress (DownloadComplete success message) = False"

section \<open>What the patterns mean\<close>

text \<open>The set of texts a pattern matches in full, independent of any matching order.\<close>

fun lang :: "rx \<Rightarrow> string set" where
  "lang (Lit l) = {l}"
| "lang (Rep c lo hi) = {w. lo \<le> length w \<and> length w \<le> hi \<and> list_all (cmatch c) w}"
| "lang (Plus c) = {w. 1 \<le> length w \<and> list_all (cmatch c) w}"
| "lang (Seq a b) = {u @ v | u v. u \<in> lang a \<and> v \<in> lang b}"
| "lang (Alt a b) = lang a \<union> lang b"
| "lang (Opt a) = insert [] (lang a)"

text \<open>
  The character class of the source's pattern for the identifier, and the heads a text
  must start with: optional scheme, optional \<open>www.\<close>, host, top-level domain, slash.
\<close>

definition id_char :: "char \<Rightarrow> bool" where
  "id_char c = (c \<notin> set ''&=%?'')"


definition url_heads :: "string list" where
  "url_heads =
     concat (map (\<lambda>s. concat (map (\<lambda>w. concat (map (\<lambda>h. map (\<lambda>t. s @ w @ h @ ''.'' @ t @ ''/'')
        [''com'', ''be'']) [''youtube'', ''youtu'', ''youtube-nocookie''])) ['''', ''www.'']))
        ['''', ''http://'', ''https://''])"





text \<open>
  What a stripped line reports: the decimal pattern's first match if there is one,
  else the integer pattern's, else the sentinel \<open>-1\<close>.
\<close>

definition line_percent :: "string \<Rightarrow> rat" where
  "line_percent line =
     (case re_search_group pct_decimal_group pct_sign line of
        Some g \<Rightarrow> binary64 (decimal_of g)
      | None \<Rightarrow>
          (case re_search_group pct_integer_group pct_sign line of
             Some g \<Rightarrow> binary64 (decimal_of g)
           | None \<Rightarrow> - 1))"

text \<open>Some digit of the text is directly followed by a percent sign.\<close>

fun has_digit_percent :: "string \<Rightarrow> bool" where
  "has_digit_percent (c # d # cs) = (cmatch Digit c \<and> d = CHR ''%'' \<or> has_digit_percent (d # cs))"
| "has_digit_percent cs = False"

text \<open>
  The command line the worker runs when it has an executable, and the options it hands
  to the library when it has none: what \<open>download_attempt\<close> passes on, gathered.
\<close>

definition worker_cmd :: "env \<Rightarrow> app \<Rightarrow> string \<Rightarrow> string list" where
  "worker_cmd e a url =
     (if format_var a \<in> set [''mp3'', ''m4a'']
      then build_cmd (the (find_yt_dlp_exe e)) url
             (path_join (download_path a) ''%(title)s.%(ext)s'') ''bestaudio/best''
             (locate_ffmpeg e) (Some [''--extract-audio'', ''--audio-format'', format_var a])
      else build_cmd (the (find_yt_dlp_exe e)) url
             (path_join (download_path a) ''%(title)s.%(ext)s'')
             (get_format_string (quality_var a) (format_var a)) (locate_ffmpeg e) None)"

definition worker_opts :: "env \<Rightarrow> app \<Rightarrow> ydl_opts" where
  "worker_opts e a =
     \<lparr>opt_format = (if format_var a \<in> set [''mp3'', ''m4a''] then ''bestaudio/best''
                      else get_format_string (quality_var a) (format_var a)),
      opt_outtmpl = path_join (download_path a) ''%(title)s.%(ext)s'',
      opt_ffmpeg_location = (if truthy (locate_ffmpeg e) then locate_ffmpeg e else None),
      opt_postprocessors =
        (if format_var a \<in> set [''mp3'', ''m4a'']
         then [\<lparr>pp_key = ''FFmpegExtractAudio'', preferredcodec = format_var a,
                 preferredquality = ''192''\<rparr>]
         else [])\<rparr>"

text \<open>The progress calls posted for a list of output lines.\<close>

definition progress_calls :: "string list \<Rightarrow> ui_event list" where
  "progress_calls out = map (\<lambda>raw. UpdateProgress (line_percent (strip raw)) (strip raw)) out"

section \<open>Concrete inputs\<close>

definition ffmpeg_args :: "string option \<Rightarrow> string list" where
  "ffmpeg_args d = (if truthy d then [''--ffmpeg-location'', the d] else [])"

definition mp3_app :: app where
  "mp3_app = \<lparr>url_var = ''https://youtu.be/abcdefghijk'', quality_var = ''720p'',
     format_var = ''mp3'', download_path = ''/tmp'', is_downloading = True,
     progress_var = 0, status_label = ''Ready to download'', button_state = ''disabled'',
     button_text = ''Downloading...'', dialogs = []\<rparr>"

definition failing_process :: process where
  "failing_process cmd = Exits [''[download]  42.0% of 10MiB'', ''ERROR: video unavailable''] 1"

definition exe_env :: "process \<Rightarrow> env" where
  "exe_env p = \<lparr>find_yt_dlp_exe = Some ''yt-dlp'', locate_ffmpeg = None, popen = p, yt_dlp = None\<rparr>"

definition idle_app :: app where
  "idle_app = \<lparr>url_var = '' https://youtu.be/abcdefghijk '', quality_var = ''best'',
     format_var = ''mp4'', download_path = ''/tmp'', is_downloading = False,
     progress_var = 100, status_label = ''Ready to download'', button_state = ''normal'',
     button_text = ''Download Video'', dialogs = []\<rparr>"

definition started_app :: app where
  "started_app = idle_app\<lparr>button_state := ''disabled'', button_text := ''Downloading...'',
     is_downloading := True, progress_var := 0\<rparr>"

definition ok_process :: process where
  "ok_process cmd = Exits [''[download] 100% of 10MiB''] 0"

definition no_process :: process where
  "no_process cmd = CannotStart (OSError ''[Errno 8] Exec format error'')"

definition garbled_process :: process where
  "garbled_process cmd =
     ReadFails [''[download]  10.0% of 10MiB'']
       (UnicodeDecodeError ''utf-8 codec cannot decode byte 0xff in position 0: invalid start byte'') 0"

definition picky_process :: process where
  "picky_process cmd =
     (if ''--extract-audio'' \<in> set cmd
      then Exits [''ERROR: ffmpeg not found''] 1
      else Exits [''[download] 100% of 10MiB''] 0)"

definition lib_env :: "(ydl_opts \<Rightarrow> string list \<Rightarrow> (rat \<times> string) list \<times> (error + unit)) option \<Rightarrow> env" where
  "lib_env l = \<lparr>find_yt_dlp_exe = None, locate_ffmpeg = None, popen = no_process, yt_dlp = l\<rparr>"

definition failing_lib :: "ydl_opts \<Rightarrow> string list \<Rightarrow> (rat \<times> string) list \<times> (error + unit)" where
  "failing_lib opts urls = ([(50, ''Downloading... 50.0%'')], Inl (LibraryError ''ERROR: unable to download''))"

section \<open>Matcher and meaning agree\<close>

lemma splits_desc_iff:
  "(m, r) \<in> set (splits_desc lo hi s) \<longleftrightarrow> (\<exists>k. lo \<le> k \<and> k \<le> hi \<and> m = take k s \<and> r = drop k s)"
  by (auto simp: splits_desc_def)

lemma le_run_len_iff:
  "k \<le> run_len c s \<longleftrightarrow> k \<le> length s \<and> list_all (cmatch c) (take k s)"
proof (induction s arbitrary: k)
  case Nil
  then show ?case by (simp add: run_len_def)
next
  case (Cons x xs)
  then show ?case by (cases k) (auto simp: run_len_def)
qed

lemma counted_split_iff:
  "(\<exists>k. lo \<le> k \<and> k \<le> hi \<and> k \<le> run_len c s \<and> m = take k s \<and> r = drop k s)
     \<longleftrightarrow> s = m @ r \<and> lo \<le> length m \<and> length m \<le> hi \<and> list_all (cmatch c) m"
proof
  assume "\<exists>k. lo \<le> k \<and> k \<le> hi \<and> k \<le> run_len c s \<and> m = take k s \<and> r = drop k s"
  then obtain k where k: "lo \<le> k" "k \<le> hi" "k \<le> run_len c s" "m = take k s" "r = drop k s"
    by blast
  from k(3) have "k \<le> length s" "list_all (cmatch c) (take k s)"
    by (simp_all add: le_run_len_iff)
  with k show "s = m @ r \<and> lo \<le> length m \<and> length m \<le> hi \<and> list_all (cmatch c) m"
    by simp
next
  assume h: "s = m @ r \<and> lo \<le> length m \<and> length m \<le> hi \<and> list_all (cmatch c) m"
  then have "length m \<le> run_len c s"
    by (simp add: le_run_len_iff)
  with h show "\<exists>k. lo \<le> k \<and> k \<le> hi \<and> k \<le> run_len c s \<and> m = take k s \<and> r = drop k s"
    by (intro exI [of _ "length m"]) simp
qed

lemma rmatch_iff: "(m, r) \<in> set (rmatch x s) \<longleftrightarrow> s = m @ r \<and> m \<in> lang x"
proof (induction x arbitrary: m r s)
  case (Lit l)
  then show ?case by (auto simp: prefix_def)
next
  case (Rep c lo hi)
  have "(m, r) \<in> set (rmatch (Rep c lo hi) s) \<longleftrightarrow>
        (\<exists>k. lo \<le> k \<and> k \<le> hi \<and> k \<le> run_len c s \<and> m = take k s \<and> r = drop k s)"
    by (auto simp: splits_desc_iff)
  then show ?case by (simp add: counted_split_iff)
next
  case (Plus c)
  have "(m, r) \<in> set (rmatch (Plus c) s) \<longleftrightarrow>
        (\<exists>k. 1 \<le> k \<and> k \<le> run_len c s \<and> k \<le> run_len c s \<and> m = take k s \<and> r = drop k s)"
    by (auto simp: splits_desc_iff)
  also have "\<dots> \<longleftrightarrow> s = m @ r \<and> 1 \<le> length m \<and> length m \<le> run_len c s \<and> list_all (cmatch c) m"
    by (rule counted_split_iff)
  also have "\<dots> \<longleftrightarrow> s = m @ r \<and> m \<in> lang (Plus c)"
    by (auto simp: le_run_len_iff)
  finally show ?case .
next
  case (Seq a b)
  have "(m, r) \<in> set (rmatch (Seq a b) s) \<longleftrightarrow>
        (\<exists>m1 r1 m2. (m1, r1) \<in> set (rmatch a s) \<and> (m2, r) \<in> set (rmatch b r1) \<and> m = m1 @ m2)"
    by force
  also have "\<dots> \<longleftrightarrow> (\<exists>m1 m2. s = m1 @ m2 @ r \<and> m1 \<in> lang a \<and> m2 \<in> lang b \<and> m = m1 @ m2)"
    by (auto simp: Seq.IH)
  also have "\<dots> \<longleftrightarrow> s = m @ r \<and> m \<in> lang (Seq a b)"
    by auto blast
  finally show ?case .
next
  case (Alt a b)
  then show ?case by auto
next
  case (Opt a)
  then show ?case by auto
qed

lemma re_match_iff: "re_match x s \<longleftrightarrow> (\<exists>m r. s = m @ r \<and> m \<in> lang x)"
proof -
  have "re_match x s \<longleftrightarrow> (\<exists>p. p \<in> set (rmatch x s))"
    by (cases "rmatch x s") (auto simp: re_match_def)
  then show ?thesis by (simp add: rmatch_iff)
qed

lemma id_char_cmatch: "cmatch (NoneOf ''&=%?'') = id_char"
  by (rule ext) (simp add: id_char_def)

lemma lang_video_id: "i \<in> lang video_id_rx \<longleftrightarrow> length i = 11 \<and> list_all id_char i"
  unfolding video_id_rx_def by (simp only: lang.simps id_char_cmatch mem_Collect_eq) linarith

lemma newline_cmatch: "cmatch AnyChar = (\<lambda>c. c \<noteq> CHR 0x0A)"
  by (rule ext) simp


section \<open>The URL pattern and the recognised shapes\<close>

lemma lang_form_rx:
  "lang form_rx = {[], ''watch?v='', ''embed/'', ''v/''}
       \<union> {x @ ''?v='' | x. x \<noteq> [] \<and> list_all (\<lambda>c. c \<noteq> CHR 0x0A) x}"
proof -
  have "lang (Seq (Plus AnyChar) (Lit ''?v='')) = {x @ ''?v='' | x. x \<noteq> [] \<and> list_all (\<lambda>c. c \<noteq> CHR 0x0A) x}"
    by (simp only: lang.simps newline_cmatch) (auto simp: Suc_le_eq)
  then show ?thesis
    unfolding form_rx_def by (simp only: lang.simps) blast
qed

lemma lang_scheme_rx: "lang scheme_rx = set ['''', ''http://'', ''https://'']"
  by (auto simp: scheme_rx_def)

lemma lang_www_rx: "lang www_rx = set ['''', ''www.'']"
  by (auto simp: www_rx_def)

lemma lang_host_rx: "lang host_rx = set [''youtube'', ''youtu'', ''youtube-nocookie'']"
  by (auto simp: host_rx_def)

lemma lang_tld_rx: "lang tld_rx = set [''com'', ''be'']"
  by (auto simp: tld_rx_def)
lemma nested_concat_set:
  "set (concat (map (\<lambda>s. concat (map (\<lambda>w. concat (map (\<lambda>h. map (\<lambda>t. F s w h t) T) H)) W)) S))
     = {F s w h t | s w h t. s \<in> set S \<and> w \<in> set W \<and> h \<in> set H \<and> t \<in> set T}"
  by auto

lemma set_url_heads:
  "set url_heads = {s @ w @ h @ ''.'' @ t @ ''/'' | s w h t.
      s \<in> lang scheme_rx \<and> w \<in> lang www_rx \<and> h \<in> lang host_rx \<and> t \<in> lang tld_rx}"
  by (simp only: url_heads_def lang_scheme_rx lang_www_rx lang_host_rx lang_tld_rx
        nested_concat_set [where F = "\<lambda>s w h t. s @ w @ h @ ''.'' @ t @ ''/''"])


lemma lang_SeqI: "u \<in> lang a \<Longrightarrow> v \<in> lang b \<Longrightarrow> u @ v \<in> lang (Seq a b)"
  by auto

lemma lang_SeqE:
  assumes "p \<in> lang (Seq a b)"
  obtains u v where "p = u @ v" "u \<in> lang a" "v \<in> lang b"
  using assms by auto

lemma lang_url_prefix_rx:
  "p \<in> lang url_prefix_rx \<longleftrightarrow> (\<exists>h f. p = h @ f \<and> h \<in> set url_heads \<and> f \<in> lang form_rx)"
proof
  assume "p \<in> lang url_prefix_rx"
  then have "p \<in> lang (Seq scheme_rx (Seq www_rx (Seq host_rx (Seq (Lit ''.'')
                 (Seq tld_rx (Seq (Lit ''/'') form_rx))))))"
    by (simp only: url_prefix_rx_def)
  then obtain s p1 where 1: "p = s @ p1" "s \<in> lang scheme_rx"
      "p1 \<in> lang (Seq www_rx (Seq host_rx (Seq (Lit ''.'') (Seq tld_rx (Seq (Lit ''/'') form_rx)))))"
    by (rule lang_SeqE)
  from 1(3) obtain w p2 where 2: "p1 = w @ p2" "w \<in> lang www_rx"
      "p2 \<in> lang (Seq host_rx (Seq (Lit ''.'') (Seq tld_rx (Seq (Lit ''/'') form_rx))))"
    by (rule lang_SeqE)
  from 2(3) obtain h p3 where 3: "p2 = h @ p3" "h \<in> lang host_rx"
      "p3 \<in> lang (Seq (Lit ''.'') (Seq tld_rx (Seq (Lit ''/'') form_rx)))"
    by (rule lang_SeqE)
  from 3(3) obtain d p4 where 4: "p3 = d @ p4" "d \<in> lang (Lit ''.'')"
      "p4 \<in> lang (Seq tld_rx (Seq (Lit ''/'') form_rx))"
    by (rule lang_SeqE)
  from 4(3) obtain t p5 where 5: "p4 = t @ p5" "t \<in> lang tld_rx"
      "p5 \<in> lang (Seq (Lit ''/'') form_rx)"
    by (rule lang_SeqE)
  from 5(3) obtain sl f where 6: "p5 = sl @ f" "sl \<in> lang (Lit ''/'')" "f \<in> lang form_rx"
    by (rule lang_SeqE)
  from 4(2) 6(2) have lits: "d = ''.''" "sl = ''/''" by simp_all
  have "s @ w @ h @ ''.'' @ t @ ''/'' \<in> set url_heads"
    unfolding set_url_heads using 1(2) 2(2) 3(2) 5(2) by blast
  moreover have "p = (s @ w @ h @ ''.'' @ t @ ''/'') @ f"
    by (simp only: 1(1) 2(1) 3(1) 4(1) 5(1) 6(1) lits append_assoc)
  ultimately show "\<exists>h f. p = h @ f \<and> h \<in> set url_heads \<and> f \<in> lang form_rx"
    using 6(3) by blast
next
  assume "\<exists>h f. p = h @ f \<and> h \<in> set url_heads \<and> f \<in> lang form_rx"
  then obtain hd f where h: "p = hd @ f" "hd \<in> set url_heads" "f \<in> lang form_rx" by blast
  from h(2) obtain s w h t where
    hd: "hd = s @ w @ h @ ''.'' @ t @ ''/''" and
    m: "s \<in> lang scheme_rx" "w \<in> lang www_rx" "h \<in> lang host_rx" "t \<in> lang tld_rx"
    unfolding set_url_heads by blast
  have l: "''.'' \<in> lang (Lit ''.'')" "''/'' \<in> lang (Lit ''/'')" by simp_all
  have "s @ w @ h @ ''.'' @ t @ ''/'' @ f \<in> lang url_prefix_rx"
    unfolding url_prefix_rx_def
    by (intro lang_SeqI m l h(3))
  moreover have "p = s @ w @ h @ ''.'' @ t @ ''/'' @ f"
    by (simp only: h(1) hd append_assoc)
  ultimately show "p \<in> lang url_prefix_rx" by simp
qed



lemma is_valid_iff_lang:
  "is_valid_youtube_url url \<longleftrightarrow>
     (\<exists>h f i t. url = h @ f @ i @ t \<and> h \<in> set url_heads \<and> f \<in> lang form_rx \<and> i \<in> lang video_id_rx)"
proof
  assume "is_valid_youtube_url url"
  then obtain m t where mt: "url = m @ t" "m \<in> lang (Seq url_prefix_rx video_id_rx)"
    unfolding is_valid_youtube_url_def youtube_regex_def re_match_iff by blast
  from mt(2) obtain p i where pi: "m = p @ i" "p \<in> lang url_prefix_rx" "i \<in> lang video_id_rx"
    by (rule lang_SeqE)
  from pi(2) obtain h f where hf: "p = h @ f" "h \<in> set url_heads" "f \<in> lang form_rx"
    unfolding lang_url_prefix_rx by blast
  have "url = h @ f @ i @ t" by (simp only: mt(1) pi(1) hf(1) append_assoc)
  with hf(2,3) pi(3)
  show "\<exists>h f i t. url = h @ f @ i @ t \<and> h \<in> set url_heads \<and> f \<in> lang form_rx \<and> i \<in> lang video_id_rx"
    by blast
next
  assume "\<exists>h f i t. url = h @ f @ i @ t \<and> h \<in> set url_heads \<and> f \<in> lang form_rx \<and> i \<in> lang video_id_rx"
  then obtain h f i t where
    h: "url = h @ f @ i @ t" "h \<in> set url_heads" "f \<in> lang form_rx" "i \<in> lang video_id_rx"
    by blast
  from h(2,3) have "h @ f \<in> lang url_prefix_rx" unfolding lang_url_prefix_rx by blast
  from this h(4) have "(h @ f) @ i \<in> lang (Seq url_prefix_rx video_id_rx)" by (rule lang_SeqI)
  moreover have "url = ((h @ f) @ i) @ t" by (simp only: h(1) append_assoc)
  ultimately show "is_valid_youtube_url url"
    unfolding is_valid_youtube_url_def youtube_regex_def re_match_iff by blast
qed


section \<open>Rounding to a float\<close>

lemma round_half_even_cases:
  "round_half_even y = \<lfloor>y\<rfloor> \<and> y - of_int \<lfloor>y\<rfloor> \<le> 1 / 2
   \<or> round_half_even y = \<lfloor>y\<rfloor> + 1 \<and> 1 / 2 \<le> y - of_int \<lfloor>y\<rfloor>"
  unfolding round_half_even_def Let_def by auto

lemma round_half_even_error: "\<bar>of_int (round_half_even y) - y\<bar> \<le> 1 / 2"
proof -
  have f: "of_int \<lfloor>y\<rfloor> \<le> y" "y < of_int \<lfloor>y\<rfloor> + 1" by linarith+
  from round_half_even_cases [of y] show ?thesis
  proof
    assume "round_half_even y = \<lfloor>y\<rfloor> \<and> y - of_int \<lfloor>y\<rfloor> \<le> 1 / 2"
    with f show ?thesis by simp
  next
    assume "round_half_even y = \<lfloor>y\<rfloor> + 1 \<and> 1 / 2 \<le> y - of_int \<lfloor>y\<rfloor>"
    with f show ?thesis by simp
  qed
qed

lemma floorlog2_bounds:
  assumes "0 < n"
  shows "(2::rat) powi (int (floorlog 2 n) - 1) \<le> of_nat n" "of_nat n < (2::rat) powi int (floorlog 2 n)"
proof -
  from assms have pos: "0 < floorlog 2 n" by (simp add: floorlog_def)
  from floorlog_bounds [of n 2] assms
  have b: "2 ^ (floorlog 2 n - 1) \<le> n" "n < 2 ^ floorlog 2 n" by simp_all
  have "int (floorlog 2 n) - 1 = int (floorlog 2 n - 1)" using pos by simp
  then have "(2::rat) powi (int (floorlog 2 n) - 1) = 2 ^ (floorlog 2 n - 1)"
    by (simp only: power_int_of_nat)
  also have "\<dots> = of_nat (2 ^ (floorlog 2 n - 1))" by simp
  also have "\<dots> \<le> of_nat n" using b(1) by (simp only: of_nat_le_iff)
  finally show "(2::rat) powi (int (floorlog 2 n) - 1) \<le> of_nat n" .
  have "(of_nat n :: rat) < of_nat (2 ^ floorlog 2 n)" using b(2) by (simp only: of_nat_less_iff)
  also have "\<dots> = 2 powi int (floorlog 2 n)" by (simp add: power_int_of_nat)
  finally show "of_nat n < (2::rat) powi int (floorlog 2 n)" .
qed

lemma ilog2_bounds:
  assumes "0 < x"
  shows "2 powi ilog2 x \<le> x" "x < 2 powi (ilog2 x + 1)"
proof -
  obtain a b where q: "quotient_of x = (a, b)" by (cases "quotient_of x")
  from q have b: "0 < b" by (rule quotient_of_denom_pos)
  from q have x: "x = of_int a / of_int b" by (rule quotient_of_div)
  from assms x b have a: "0 < a" by (simp add: zero_less_divide_iff)
  define la where "la = int (floorlog 2 (nat a))"
  define lb where "lb = int (floorlog 2 (nat b))"
  have A: "(2::rat) powi (la - 1) \<le> of_int a" "of_int a < (2::rat) powi la"
    using floorlog2_bounds [of "nat a"] a by (simp_all add: la_def)
  have B: "(2::rat) powi (lb - 1) \<le> of_int b" "of_int b < (2::rat) powi lb"
    using floorlog2_bounds [of "nat b"] b by (simp_all add: lb_def)
  have bpos: "(0::rat) < of_int b" using b by simp
  have p: "\<And>k. (0::rat) < 2 powi k" by simp
  have lo: "(2::rat) powi (la - lb - 1) < x"
  proof -
    have "(2::rat) powi (la - lb - 1) * of_int b < 2 powi (la - lb - 1) * 2 powi lb"
      using B(2) p by (simp only: mult_less_cancel_left_pos)
    also have "\<dots> = 2 powi (la - 1)"
      by (simp add: power_int_add [symmetric])
    also have "\<dots> \<le> of_int a" by (rule A(1))
    finally show ?thesis using bpos by (simp add: x pos_less_divide_eq)
  qed
  have hi: "x < (2::rat) powi (la - lb + 1)"
  proof -
    have "of_int a < (2::rat) powi la" by (rule A(2))
    also have "\<dots> = 2 powi (la - lb + 1) * 2 powi (lb - 1)"
      by (simp add: power_int_add [symmetric])
    also have "\<dots> \<le> 2 powi (la - lb + 1) * of_int b"
      using B(1) p by (simp only: mult_le_cancel_left_pos)
    finally show ?thesis using bpos by (simp add: x pos_divide_less_eq)
  qed
  have e: "ilog2 x = (if 2 powi (la - lb) \<le> x then la - lb else la - lb - 1)"
    unfolding ilog2_def q la_def lb_def by (simp add: Let_def)
  show "2 powi ilog2 x \<le> x"
    using lo by (simp add: e)
  show "x < 2 powi (ilog2 x + 1)"
    using hi by (auto simp: e not_le)
qed

lemma binary64_pos_eq:
  assumes "0 < x"
  shows "binary64 x = of_int (round_half_even (x / 2 powi (max (ilog2 x) (- 1022) - 52)))
                        * 2 powi (max (ilog2 x) (- 1022) - 52)"
  using assms by (simp add: binary64_def Let_def)

lemma binary64_abs_error:
  assumes "0 < x"
  shows "\<bar>binary64 x - x\<bar> \<le> 2 powi (max (ilog2 x) (- 1022) - 53)"
proof -
  define q where "q = max (ilog2 x) (- 1022) - 52"
  define m where "m = round_half_even (x / 2 powi q)"
  have p: "(0::rat) < 2 powi q" by simp
  have "binary64 x - x = (of_int m - x / 2 powi q) * 2 powi q"
    using p by (simp add: binary64_pos_eq [OF assms] q_def m_def algebra_simps)
  then have "\<bar>binary64 x - x\<bar> = \<bar>of_int m - x / 2 powi q\<bar> * 2 powi q"
    by (simp add: abs_mult)
  also have "\<dots> \<le> (1 / 2) * 2 powi q"
    using round_half_even_error [of "x / 2 powi q"] p
    by (simp only: m_def mult_le_cancel_right_pos)
  also have "\<dots> = 2 powi (q - 1)"
    by (simp add: power_int_diff)
  also have "q - 1 = max (ilog2 x) (- 1022) - 53" by (simp add: q_def)
  finally show ?thesis .
qed

lemma binary64_rel_error:
  assumes "2 powi (- 1022) \<le> x"
  shows "\<bar>binary64 x - x\<bar> \<le> x / 2 ^ 53"
proof -
  have "(0::rat) < 2 powi (- 1022)" by simp
  with assms have pos: "0 < x" by linarith
  have "(2::rat) powi (- 1022) < 2 powi (ilog2 x + 1)"
    using assms ilog2_bounds(2) [OF pos] by linarith
  then have "- 1022 < ilog2 x + 1"
    using power_int_increasing [of "ilog2 x + 1" "- 1022" "2::rat"] by linarith
  then have e: "max (ilog2 x) (- 1022) = ilog2 x" by simp
  have "\<bar>binary64 x - x\<bar> \<le> 2 powi (ilog2 x - 53)"
    using binary64_abs_error [OF pos] by (simp only: e)
  also have "\<dots> = 2 powi ilog2 x / 2 ^ 53"
    by (simp add: power_int_diff)
  also have "\<dots> \<le> x / 2 ^ 53"
    using ilog2_bounds(1) [OF pos] by (simp add: divide_right_mono)
  finally show ?thesis .
qed

lemma round_half_even_nonneg: "0 \<le> y \<Longrightarrow> 0 \<le> round_half_even y"
  using round_half_even_cases [of y] by (auto simp: zero_le_floor) 

lemma binary64_nonneg: "0 \<le> x \<Longrightarrow> 0 \<le> binary64 x"
proof (cases "x = 0")
  case True
  then show ?thesis by (simp add: binary64_def)
next
  case False
  assume "0 \<le> x"
  with False have pos: "0 < x" by simp
  have "0 \<le> x / 2 powi (max (ilog2 x) (- 1022) - 52)" using pos by simp
  then have "0 \<le> round_half_even (x / 2 powi (max (ilog2 x) (- 1022) - 52))"
    by (rule round_half_even_nonneg)
  then show ?thesis by (simp add: binary64_pos_eq [OF pos])
qed

section \<open>Searching a line for a percentage\<close>

lemma first_group_Some:
  "first_group a ms = Some m \<Longrightarrow> \<exists>r. (m, r) \<in> set ms \<and> re_match a r"
  by (induction a ms rule: first_group.induct) (auto split: if_splits)

lemma first_group_None:
  "first_group a ms = None \<Longrightarrow> (m, r) \<in> set ms \<Longrightarrow> \<not> re_match a r"
  by (induction a ms rule: first_group.induct) (auto split: if_splits)

lemma first_group_at:
  "first_group a (rmatch g s) = Some m \<Longrightarrow> \<exists>r. s = m @ r \<and> m \<in> lang g \<and> re_match a r"
  using first_group_Some [of a "rmatch g s" m] by (auto simp: rmatch_iff)

lemma first_group_at_None:
  "first_group a (rmatch g s) = None \<Longrightarrow> s = m @ r \<Longrightarrow> m \<in> lang g \<Longrightarrow> \<not> re_match a r"
  using first_group_None [of a "rmatch g s" m r] by (simp add: rmatch_iff)

lemma re_search_group_Some:
  "re_search_group g a s = Some m \<Longrightarrow> \<exists>pre r. s = pre @ m @ r \<and> m \<in> lang g \<and> re_match a r"
proof (induction s)
  case Nil
  then have "first_group a (rmatch g []) = Some m" by simp
  from first_group_at [OF this] show ?case by fastforce
next
  case (Cons c cs)
  show ?case
  proof (cases "first_group a (rmatch g (c # cs))")
    case None
    with Cons.prems have "re_search_group g a cs = Some m" by simp
    from Cons.IH [OF this] obtain pre r where "cs = pre @ m @ r" "m \<in> lang g" "re_match a r"
      by blast
    then have "c # cs = (c # pre) @ m @ r \<and> m \<in> lang g \<and> re_match a r" by simp
    then show ?thesis by blast
  next
    case (Some m')
    with Cons.prems have "m' = m" by simp
    with Some first_group_at [of a g "c # cs" m]
    obtain r where "c # cs = [] @ m @ r \<and> m \<in> lang g \<and> re_match a r" by auto
    then show ?thesis by blast
  qed
qed

lemma re_search_group_None:
  "re_search_group g a s = None \<Longrightarrow> s = pre @ m @ r \<Longrightarrow> m \<in> lang g \<Longrightarrow> \<not> re_match a r"
proof (induction s arbitrary: pre)
  case Nil
  then have "first_group a (rmatch g []) = None" "[] = m @ r" by simp_all
  then show ?case using Nil.prems(3) by (rule first_group_at_None)
next
  case (Cons c cs)
  from Cons.prems(1) have n: "first_group a (rmatch g (c # cs)) = None" "re_search_group g a cs = None"
    by (simp_all split: option.splits)
  show ?case
  proof (cases pre)
    case Nil
    with Cons.prems(2) have "c # cs = m @ r" by simp
    with n(1) show ?thesis using Cons.prems(3) by (rule first_group_at_None)
  next
    case (Cons p ps)
    with Cons.prems(2) have "cs = ps @ m @ r" by simp
    with n(2) show ?thesis using Cons.prems(3) by (rule Cons.IH)
  qed
qed

lemma digit_not_point: "cmatch Digit c \<Longrightarrow> c \<noteq> CHR ''.''"
  by auto

lemma digit_val_le: "cmatch Digit c \<Longrightarrow> digit_val c \<le> 9"
  by (auto simp: digit_val_def)

lemma digits_val_snoc: "digits_val (ds @ [c]) = 10 * digits_val ds + digit_val c"
  by (simp add: digits_val_def)

lemma digits_val_less: "list_all (cmatch Digit) ds \<Longrightarrow> digits_val ds < 10 ^ length ds"
proof (induction ds rule: rev_induct)
  case Nil
  then show ?case by (simp add: digits_val_def)
next
  case (snoc c ds)
  then have "digits_val ds < 10 ^ length ds" "digit_val c \<le> 9"
    by (simp_all add: digit_val_le)
  then show ?case by (simp add: digits_val_snoc)
qed

lemma takeWhile_digits:
  "list_all (cmatch Digit) ds \<Longrightarrow> takeWhile (\<lambda>c. c \<noteq> CHR ''.'') (ds @ CHR ''.'' # r) = ds"
  "list_all (cmatch Digit) ds \<Longrightarrow> dropWhile (\<lambda>c. c \<noteq> CHR ''.'') (ds @ CHR ''.'' # r) = CHR ''.'' # r"
  "list_all (cmatch Digit) ds \<Longrightarrow> takeWhile (\<lambda>c. c \<noteq> CHR ''.'') ds = ds"
  "list_all (cmatch Digit) ds \<Longrightarrow> dropWhile (\<lambda>c. c \<noteq> CHR ''.'') ds = []"
  by (induction ds) (simp_all add: digit_not_point)

lemma integer_group_decimal:
  assumes "g \<in> lang pct_integer_group"
  shows "is_decimal g" "0 \<le> decimal_of g" "decimal_of g \<le> 999"
proof -
  from assms have g: "1 \<le> length g" "length g \<le> 3" "list_all (cmatch Digit) g"
    by (simp_all add: pct_integer_group_def)
  from g(1) have ne: "g \<noteq> []" by auto
  show "is_decimal g"
    using g(3) ne by (simp add: is_decimal_def is_digits_def takeWhile_digits)
  have d: "decimal_of g = of_nat (digits_val g)"
    using g(3) by (simp add: decimal_of_def takeWhile_digits)
  show "0 \<le> decimal_of g" by (simp add: d)
  have "digits_val g < 10 ^ length g" using g(3) by (rule digits_val_less)
  also have "(10::nat) ^ length g \<le> 10 ^ 3" using g(2) by (intro power_increasing) simp_all
  finally have "digits_val g \<le> 999" by simp
  then have "(of_nat (digits_val g) :: rat) \<le> of_nat 999" by (simp only: of_nat_le_iff)
  then show "decimal_of g \<le> 999" by (simp add: d)
qed

lemma decimal_group_shape:
  assumes "g \<in> lang pct_decimal_group"
  obtains ds d where "g = ds @ CHR ''.'' # [d]" "1 \<le> length ds" "length ds \<le> 3"
    "list_all (cmatch Digit) ds" "cmatch Digit d"
proof -
  from assms obtain ds r where 1: "g = ds @ r" "ds \<in> lang (Rep Digit 1 3)"
      "r \<in> lang (Seq (Lit ''.'') (Rep Digit 1 1))"
    unfolding pct_decimal_group_def by (rule lang_SeqE)
  from 1(3) obtain p f where 2: "r = p @ f" "p \<in> lang (Lit ''.'')" "f \<in> lang (Rep Digit 1 1)"
    by (rule lang_SeqE)
  from 2(3) have "length f = 1" "list_all (cmatch Digit) f" by simp_all
  then obtain d where f: "f = [d]" "cmatch Digit d" by (cases f) auto
  from 2(2) have p: "p = ''.''" by simp
  from 1(2) have ds: "1 \<le> length ds" "length ds \<le> 3" "list_all (cmatch Digit) ds" by simp_all
  have "g = ds @ CHR ''.'' # [d]" by (simp add: 1(1) 2(1) p f(1))
  from this ds f(2) show ?thesis by (rule that)
qed

lemma decimal_group_decimal:
  assumes "g \<in> lang pct_decimal_group"
  shows "is_decimal g" "0 \<le> decimal_of g" "decimal_of g \<le> 9999 / 10"
proof -
  from assms obtain ds d where g: "g = ds @ CHR ''.'' # [d]" "1 \<le> length ds" "length ds \<le> 3"
      "list_all (cmatch Digit) ds" "cmatch Digit d"
    by (rule decimal_group_shape)
  from g(2) have ne: "ds \<noteq> []" by auto
  show "is_decimal g"
    using g(4,5) ne by (simp add: g(1) is_decimal_def is_digits_def takeWhile_digits)
  have d: "decimal_of g = of_nat (digits_val (ds @ [d])) / 10"
    using g(4) by (simp add: g(1) decimal_of_def takeWhile_digits)
  show "0 \<le> decimal_of g" by (simp add: d)
  have "list_all (cmatch Digit) (ds @ [d])" using g(4,5) by simp
  then have "digits_val (ds @ [d]) < 10 ^ length (ds @ [d])" by (rule digits_val_less)
  also have "(10::nat) ^ length (ds @ [d]) \<le> 10 ^ 4" using g(3) by (intro power_increasing) simp_all
  finally have "digits_val (ds @ [d]) \<le> 9999" by simp
  then have "(of_nat (digits_val (ds @ [d])) :: rat) \<le> of_nat 9999" by (simp only: of_nat_le_iff)
  then show "decimal_of g \<le> 9999 / 10" by (simp add: d)
qed

lemma binary64_le_1000:
  assumes "0 \<le> x" "x \<le> 9999 / 10"
  shows "binary64 x \<le> 1000"
proof (cases "x = 0")
  case True
  then show ?thesis by (simp add: binary64_def)
next
  case False
  with assms(1) have pos: "0 < x" by simp
  have "(2::rat) powi ilog2 x \<le> x" using pos by (rule ilog2_bounds)
  also have "x < 2 powi 10" using assms(2) by simp
  finally have "ilog2 x < 10"
    using power_int_increasing [of 10 "ilog2 x" "2::rat"] by linarith
  then have "max (ilog2 x) (- 1022) - 53 \<le> - 44" by simp
  then have "(2::rat) powi (max (ilog2 x) (- 1022) - 53) \<le> 2 powi (- 44)"
    by (intro power_int_increasing) simp_all
  with binary64_abs_error [OF pos] have "\<bar>binary64 x - x\<bar> \<le> 2 powi (- 44)" by linarith
  moreover have "(2::rat) powi (- 44) \<le> 1 / 10" by (simp add: power_int_minus)
  ultimately show ?thesis using assms(2) by linarith
qed

lemma group_percent:
  assumes "g \<in> lang pct_decimal_group \<or> g \<in> lang pct_integer_group"
  shows "py_float g = Some (binary64 (decimal_of g))"
    "0 \<le> binary64 (decimal_of g)" "binary64 (decimal_of g) \<le> 1000"
proof -
  from assms have d: "is_decimal g" "0 \<le> decimal_of g" "decimal_of g \<le> 9999 / 10"
    using decimal_group_decimal [of g] integer_group_decimal [of g] by auto
  show "py_float g = Some (binary64 (decimal_of g))" using d(1) by (simp add: py_float_def)
  show "0 \<le> binary64 (decimal_of g)" using d(2) by (rule binary64_nonneg)
  show "binary64 (decimal_of g) \<le> 1000" using d(2,3) by (rule binary64_le_1000)
qed

lemma search_decimal_group:
  "re_search_group pct_decimal_group pct_sign l = Some g \<Longrightarrow> g \<in> lang pct_decimal_group"
  using re_search_group_Some [of pct_decimal_group pct_sign l g] by blast

lemma search_integer_group:
  "re_search_group pct_integer_group pct_sign l = Some g \<Longrightarrow> g \<in> lang pct_integer_group"
  using re_search_group_Some [of pct_integer_group pct_sign l g] by blast

lemma handle_line_eq:
  "handle_line cb raw s = call_cb cb (line_percent (strip raw)) (strip raw) s"
proof (cases "re_search_group pct_decimal_group pct_sign (strip raw)")
  case None
  note dec = this
  show ?thesis
  proof (cases "re_search_group pct_integer_group pct_sign (strip raw)")
    case None
    with dec show ?thesis by (simp add: handle_line_def line_percent_def)
  next
    case (Some g)
    then have "py_float g = Some (binary64 (decimal_of g))"
      using search_integer_group group_percent(1) by blast
    with dec Some show ?thesis by (simp add: handle_line_def line_percent_def)
  qed
next
  case (Some g)
  then have "py_float g = Some (binary64 (decimal_of g))"
    using search_decimal_group group_percent(1) by blast
  with Some show ?thesis by (simp add: handle_line_def line_percent_def)
qed

lemma read_lines_fold:
  "read_lines (Some f) ls s = fold (\<lambda>raw. f (line_percent (strip raw)) (strip raw)) ls s"
  by (induction ls arbitrary: s) (simp_all add: handle_line_eq)

lemma line_percent_range:
  "line_percent l = - 1 \<or> (0 \<le> line_percent l \<and> line_percent l \<le> 1000)"
proof (cases "re_search_group pct_decimal_group pct_sign l")
  case None
  note dec = this
  show ?thesis
  proof (cases "re_search_group pct_integer_group pct_sign l")
    case None
    with dec show ?thesis by (simp add: line_percent_def)
  next
    case (Some g)
    then have "0 \<le> binary64 (decimal_of g) \<and> binary64 (decimal_of g) \<le> 1000"
      using search_integer_group group_percent(2,3) by blast
    with dec Some show ?thesis by (simp add: line_percent_def)
  qed
next
  case (Some g)
  then have "0 \<le> binary64 (decimal_of g) \<and> binary64 (decimal_of g) \<le> 1000"
    using search_decimal_group group_percent(2,3) by blast
  with Some show ?thesis by (simp add: line_percent_def)
qed

lemma has_digit_percent_iff:
  "has_digit_percent l \<longleftrightarrow> (\<exists>pre c r. l = pre @ c # CHR ''%'' # r \<and> cmatch Digit c)"
proof (induction l rule: has_digit_percent.induct)
  case (1 c d cs)
  show ?case
  proof
    assume "has_digit_percent (c # d # cs)"
    then consider "cmatch Digit c \<and> d = CHR ''%''" | "has_digit_percent (d # cs)" by auto
    then show "\<exists>pre c' r. c # d # cs = pre @ c' # CHR ''%'' # r \<and> cmatch Digit c'"
    proof cases
      case 1
      then have "c # d # cs = [] @ c # CHR ''%'' # cs \<and> cmatch Digit c" by simp
      then show ?thesis by blast
    next
      case 2
      with "1.IH" obtain pre c' r where "d # cs = pre @ c' # CHR ''%'' # r" "cmatch Digit c'"
        by blast
      then have "c # d # cs = (c # pre) @ c' # CHR ''%'' # r \<and> cmatch Digit c'" by simp
      then show ?thesis by blast
    qed
  next
    assume "\<exists>pre c' r. c # d # cs = pre @ c' # CHR ''%'' # r \<and> cmatch Digit c'"
    then obtain pre c' r where h: "c # d # cs = pre @ c' # CHR ''%'' # r" "cmatch Digit c'"
      by blast
    show "has_digit_percent (c # d # cs)"
    proof (cases pre)
      case Nil
      with h show ?thesis by simp
    next
      case (Cons p ps)
      with h have "d # cs = ps @ c' # CHR ''%'' # r" by simp
      with h(2) "1.IH" have "has_digit_percent (d # cs)" by blast
      then show ?thesis by simp
    qed
  qed
qed (simp_all add: Cons_eq_append_conv)

lemma re_match_Lit: "re_match (Lit l) r \<longleftrightarrow> prefix l r"
  by (simp add: re_match_def)

lemma integer_found_iff:
  "re_search_group pct_integer_group pct_sign l \<noteq> None \<longleftrightarrow> has_digit_percent l"
proof
  assume "re_search_group pct_integer_group pct_sign l \<noteq> None"
  then obtain m where "re_search_group pct_integer_group pct_sign l = Some m" by blast
  from re_search_group_Some [OF this] obtain pre r where
    h: "l = pre @ m @ r" "m \<in> lang pct_integer_group" "re_match pct_sign r" by blast
  from h(3) obtain r' where r: "r = CHR ''%'' # r'"
    by (auto simp: pct_sign_def re_match_Lit prefix_def)
  from h(2) have m: "m \<noteq> []" "list_all (cmatch Digit) m"
    by (auto simp: pct_integer_group_def)
  then have "m = butlast m @ [last m]" "cmatch Digit (last m)"
    by (simp_all add: list_all_iff)
  then have "l = (pre @ butlast m) @ last m # CHR ''%'' # r' \<and> cmatch Digit (last m)"
    using h(1) r by (metis append_Cons append_Nil append_assoc)
  then show "has_digit_percent l" unfolding has_digit_percent_iff by blast
next
  assume "has_digit_percent l"
  then obtain pre c r where h: "l = pre @ c # CHR ''%'' # r" "cmatch Digit c"
    unfolding has_digit_percent_iff by blast
  have 1: "l = pre @ [c] @ (CHR ''%'' # r)" by (simp add: h(1))
  have 2: "[c] \<in> lang pct_integer_group" using h(2) by (simp add: pct_integer_group_def)
  have 3: "re_match pct_sign (CHR ''%'' # r)" by (simp add: pct_sign_def re_match_Lit)
  show "re_search_group pct_integer_group pct_sign l \<noteq> None"
    using re_search_group_None [OF _ 1 2] 3 by blast
qed

lemma decimal_found_digit_percent:
  assumes "re_search_group pct_decimal_group pct_sign l = Some g"
  shows "has_digit_percent l"
proof -
  from re_search_group_Some [OF assms] obtain pre r where
    h: "l = pre @ g @ r" "g \<in> lang pct_decimal_group" "re_match pct_sign r" by blast
  from h(3) obtain r' where r: "r = CHR ''%'' # r'"
    by (auto simp: pct_sign_def re_match_Lit prefix_def)
  from h(2) obtain ds d where g: "g = ds @ CHR ''.'' # [d]" "cmatch Digit d"
    by (rule decimal_group_shape)
  have "l = (pre @ ds @ ''.'') @ d # CHR ''%'' # r'"
    by (simp add: h(1) g(1) r)
  with g(2) show ?thesis unfolding has_digit_percent_iff by blast
qed

lemma line_percent_unknown_iff: "line_percent l = - 1 \<longleftrightarrow> \<not> has_digit_percent l"
proof (cases "re_search_group pct_decimal_group pct_sign l")
  case None
  note dec = this
  show ?thesis
  proof (cases "re_search_group pct_integer_group pct_sign l")
    case None
    then have "\<not> has_digit_percent l" using integer_found_iff [of l] by simp
    with dec None show ?thesis by (simp add: line_percent_def)
  next
    case (Some g)
    then have "has_digit_percent l" using integer_found_iff [of l] by simp
    moreover have "0 \<le> binary64 (decimal_of g)"
      using Some search_integer_group group_percent(2) by blast
    ultimately show ?thesis using dec Some by (simp add: line_percent_def)
  qed
next
  case (Some g)
  then have "has_digit_percent l" by (rule decimal_found_digit_percent)
  moreover have "0 \<le> binary64 (decimal_of g)"
    using Some search_decimal_group group_percent(2) by blast
  ultimately show ?thesis using Some by (simp add: line_percent_def)
qed

section \<open>What the worker posts\<close>

lemma progress_cb_line_percent:
  "progress_cb (line_percent l) l posted = posted @ [UpdateProgress (line_percent l) l]"
  using line_percent_range [of l] by (auto simp: progress_cb_def)

lemma download_thread_eq:
  "download_thread e a url = fst (download_attempt e a url) @ [completion (snd (download_attempt e a url))]"
  by (cases "download_attempt e a url") (simp add: download_thread_def)

lemma post_progress_progress: "list_all is_progress (fst (post_progress r))"
  by (auto simp: post_progress_def list_all_iff)

lemma run_ui_complete: "is_downloading (run_ui (ps @ [DownloadComplete ok msg]) a) = False"
  by (simp add: run_ui_def download_complete_def Let_def)

lemma last_download_thread:
  "last (download_thread e a url) = completion (snd (download_attempt e a url))"
  by (simp add: download_thread_eq)

lemma completion_shape: "\<exists>ok msg. completion r = DownloadComplete ok msg"
  by (cases r) (auto simp: completion_def)

lemma read_lines_progress_cb:
  "read_lines (Some progress_cb) ls posted
     = posted @ map (\<lambda>raw. UpdateProgress (line_percent (strip raw)) (strip raw)) ls"
  by (induction ls arbitrary: posted) (simp_all add: handle_line_eq progress_cb_line_percent)

lemma read_lines_progress_calls: "read_lines (Some progress_cb) out [] = progress_calls out"
  by (simp add: read_lines_progress_cb progress_calls_def)

lemma progress_calls_progress: "list_all is_progress (progress_calls out)"
  by (simp add: progress_calls_def list_all_iff)

lemma run_cmd_exits:
  "p cmd = Exits out rc \<Longrightarrow>
     run_cmd p cmd cb s =
       (read_lines cb out s,
        if rc \<noteq> 0 then Inl (RuntimeError (''yt-dlp exited with '' @ show_int rc)) else Inr ())"
  by (simp add: run_cmd_def Let_def)

lemma run_cmd_read_fails:
  "p cmd = ReadFails out err rc \<Longrightarrow> run_cmd p cmd cb s = (read_lines cb out s, Inl err)"
  by (simp add: run_cmd_def)

lemma run_cmd_cannot_start: "p cmd = CannotStart err \<Longrightarrow> run_cmd p cmd cb s = (s, Inl err)"
  by (simp add: run_cmd_def)

lemma run_cmd_progress:
  "list_all is_progress (fst (run_cmd p cmd (Some progress_cb) []))"
  by (cases "p cmd")
     (simp_all add: run_cmd_def Let_def read_lines_progress_calls progress_calls_progress)

lemma download_attempt_exe:
  "truthy (find_yt_dlp_exe e) \<Longrightarrow>
     download_attempt e a url = run_cmd (popen e) (worker_cmd e a url) (Some progress_cb) []"
  by (simp add: download_attempt_def run_yt_dlp_download_def worker_cmd_def Let_def)

lemma download_attempt_lib:
  assumes "\<not> truthy (find_yt_dlp_exe e)" "yt_dlp e = Some lib"
  shows "download_attempt e a url = post_progress (lib (worker_opts e a) [url])"
  using assms by (simp add: download_attempt_def worker_opts_def Let_def)

lemma download_attempt_no_lib:
  assumes "\<not> truthy (find_yt_dlp_exe e)" "yt_dlp e = None"
  shows "download_attempt e a url =
           ([], Inl (ImportError (''No module named '' @ [CHR 0x27] @ ''yt_dlp'' @ [CHR 0x27])))"
  using assms by (simp add: download_attempt_def Let_def)

lemma download_attempt_progress: "list_all is_progress (fst (download_attempt e a url))"
proof (cases "truthy (find_yt_dlp_exe e)")
  case True
  then show ?thesis by (simp add: download_attempt_exe run_cmd_progress)
next
  case False
  then show ?thesis
    by (cases "yt_dlp e")
       (simp_all add: download_attempt_no_lib download_attempt_lib post_progress_progress)
qed




section \<open>View counts to one decimal\<close>

lemma abs_tenfold_triangle:
  fixes t b x :: rat
  shows "\<bar>t - 10 * x\<bar> \<le> \<bar>t - 10 * b\<bar> + 10 * \<bar>b - x\<bar>"
  unfolding abs_if by (simp split: if_splits)

lemma nearest_tenth:
  fixes n E :: int
  assumes E: "0 < E" "even E" and n: "10 * E \<le> n" "n < 2 ^ 53"
  defines "x \<equiv> (of_int n / of_int (10 * E) :: rat)"
  shows "\<bar>of_int (round_half_even (10 * binary64 x)) - of_int n / of_int E\<bar> \<le> (1 / 2 :: rat)"
    and "0 \<le> binary64 x" and "binary64 x < 2 ^ 1024"
proof -
  have Epos: "(0::rat) < of_int E" using E(1) by simp
  have x1: "1 \<le> x" using n(1) E(1) by (simp add: x_def pos_le_divide_eq)
  have "(2::rat) powi (- 1022) \<le> 1" by (simp add: power_int_minus inverse_le_1_iff)
  with x1 have "2 powi (- 1022) \<le> x" by linarith
  then have errq: "\<bar>binary64 x - x\<bar> \<le> x / 2 ^ 53" by (rule binary64_rel_error)
  show nonneg: "0 \<le> binary64 x" using x1 by (intro binary64_nonneg) simp
  have xn: "x \<le> of_int n"
  proof -
    have "(1::rat) \<le> of_int (10 * E)" using E(1) by simp
    moreover have "(0::rat) \<le> of_int n" using n(1) E(1) by simp
    ultimately have "of_int n / of_int (10 * E) \<le> (of_int n :: rat) / 1"
      by (intro divide_left_mono) simp_all
    then show ?thesis by (simp add: x_def)
  qed
  have nb: "(of_int n :: rat) < 2 ^ 53" using n(2) by (metis of_int_less_iff of_int_numeral of_int_power)
  show "binary64 x < 2 ^ 1024"
  proof -
    have "binary64 x \<le> x + x / 2 ^ 53" using errq by linarith
    also have "\<dots> \<le> x + x" using x1 by (simp add: field_simps)
    also have "\<dots> < 2 ^ 53 + 2 ^ 53" using xn nb by linarith
    also have "\<dots> \<le> (2::rat) ^ 1024" by simp
    finally show ?thesis .
  qed
  define t where "t = round_half_even (10 * binary64 x)"
  have errt: "\<bar>of_int t - 10 * binary64 x\<bar> \<le> (1 / 2 :: rat)"
    unfolding t_def by (rule round_half_even_error)
  have x10: "10 * x = of_int n / of_int E" using E(1) by (simp add: x_def)
  have "\<bar>of_int t - 10 * x\<bar> \<le> \<bar>of_int t - 10 * binary64 x\<bar> + 10 * \<bar>binary64 x - x\<bar>"
    by (rule abs_tenfold_triangle)
  then have "\<bar>of_int t - of_int n / of_int E\<bar> \<le> \<bar>of_int t - 10 * binary64 x\<bar> + 10 * \<bar>binary64 x - x\<bar>"
    by (simp only: x10)
  also have "\<dots> \<le> 1 / 2 + 10 * (x / 2 ^ 53)" using errt errq by simp
  also have "10 * (x / 2 ^ 53) = ((of_int n :: rat) / 2 ^ 53) / of_int E"
    using x10 by (simp add: field_simps)
  also have "((of_int n :: rat) / 2 ^ 53) / of_int E < 1 / of_int E"
  proof -
    have "(of_int n :: rat) / 2 ^ 53 < 1" using nb by simp
    then show ?thesis using Epos by (rule divide_strict_right_mono)
  qed
  finally have A: "\<bar>(of_int t :: rat) - of_int n / of_int E\<bar> < 1 / 2 + 1 / of_int E" by simp
  have sc: "\<bar>of_int (E * t - n) :: rat\<bar> = of_int E * \<bar>(of_int t :: rat) - of_int n / of_int E\<bar>"
  proof -
    have "(of_int (E * t - n) :: rat) = of_int E * (of_int t - of_int n / of_int E)"
      using Epos by (simp add: field_simps)
    then show ?thesis using Epos by (simp add: abs_mult)
  qed
  have "\<bar>of_int (E * t - n) :: rat\<bar> < of_int E * (1 / 2 + 1 / of_int E)"
    unfolding sc using A Epos by (simp only: mult_less_cancel_left_pos)
  also have "\<dots> = of_int E / 2 + 1" using Epos by (simp add: field_simps)
  finally have "(of_int (2 * \<bar>E * t - n\<bar>) :: rat) < of_int (E + 2)" by simp
  then have "2 * \<bar>E * t - n\<bar> < E + 2" by (simp only: of_int_less_iff)
  with E(2) have "2 * \<bar>E * t - n\<bar> \<le> E" by presburger
  then have "(of_int (2 * \<bar>E * t - n\<bar>) :: rat) \<le> of_int E" by (simp only: of_int_le_iff)
  then have "\<bar>of_int (E * t - n) :: rat\<bar> \<le> of_int E * (1 / 2)" by simp
  then have "of_int E * \<bar>(of_int t :: rat) - of_int n / of_int E\<bar> \<le> of_int E * (1 / 2)"
    by (simp only: sc)
  then have "\<bar>(of_int t :: rat) - of_int n / of_int E\<bar> \<le> 1 / 2"
    using Epos by (simp only: mult_le_cancel_left_pos)
  then show "\<bar>of_int (round_half_even (10 * binary64 x)) - of_int n / of_int E\<bar> \<le> (1 / 2 :: rat)"
    by (simp only: t_def)
qed

lemma scaled_view_str:
  fixes n E :: int
  assumes "0 < E" "even E" "10 * E \<le> n" "n < 2 ^ 53"
  shows "\<exists>t. (case py_truediv n (10 * E) of Inl e \<Rightarrow> Inl e | Inr q \<Rightarrow> Inr (format_1f q @ sfx))
              = (Inr (show_tenths t @ sfx) :: error + string)
            \<and> \<bar>of_int t - of_int n / of_int E\<bar> \<le> (1 / 2 :: rat)"
proof -
  define q where "q = binary64 (of_int n / of_int (10 * E))"
  from nearest_tenth [OF assms]
  have t: "\<bar>of_int (round_half_even (10 * q)) - of_int n / of_int E\<bar> \<le> (1 / 2 :: rat)"
    and q: "0 \<le> q" "q < 2 ^ 1024"
    by (simp_all only: q_def)
  from q have "\<not> 2 ^ 1024 \<le> \<bar>q\<bar>" by simp
  moreover have "10 * E \<noteq> 0" using assms(1) by simp
  ultimately have "py_truediv n (10 * E) = Inr q"
    unfolding py_truediv_def Let_def q_def [symmetric] by (simp only: if_False)
  moreover have "format_1f q = show_tenths (round_half_even (10 * q))"
    using q(1) by (simp add: format_1f_def)
  ultimately have "(case py_truediv n (10 * E) of Inl e \<Rightarrow> Inl e | Inr q \<Rightarrow> Inr (format_1f q @ sfx))
      = (Inr (show_tenths (round_half_even (10 * q)) @ sfx) :: error + string)"
    by simp
  with t show ?thesis by blast
qed

text \<open>
  C3. The format expression: quality \<open>best\<close> prefers the best stream of the chosen
  container and falls back to the best overall; \<open>worst\<close> is symmetric; each of the
  resolution tokens 144p, 240p, 360p, 480p, 720p loses its \<open>p\<close> and gives the
  three-tier chain capped at that height.
\<close>

theorem get_format_string_spec:
  "get_format_string ''best'' c = ''best[ext='' @ c @ '']/best'' \<and>
   get_format_string ''worst'' c = ''worst[ext='' @ c @ '']/worst'' \<and>
   get_format_string ''144p'' c = ''best[height<=144][ext='' @ c @ '']/best[height<=144]/best'' \<and>
   get_format_string ''240p'' c = ''best[height<=240][ext='' @ c @ '']/best[height<=240]/best'' \<and>
   get_format_string ''360p'' c = ''best[height<=360][ext='' @ c @ '']/best[height<=360]/best'' \<and>
   get_format_string ''480p'' c = ''best[height<=480][ext='' @ c @ '']/best[height<=480]/best'' \<and>
   get_format_string ''720p'' c = ''best[height<=720][ext='' @ c @ '']/best[height<=720]/best'' \<and>
   get_format_string ''best'' ''mp4'' = ''best[ext=mp4]/best'' \<and>
   get_format_string ''720p'' ''webm'' = ''best[height<=720][ext=webm]/best[height<=720]/best''"
  by (simp add: get_format_string_def str_remove_def)

text \<open>
  C4. When the container is mp3 or m4a, whatever the quality: with an executable, the
  command run is the executable, then the three audio-extraction arguments naming
  the codec, then \<open>-f bestaudio/best\<close>, the output template and the rest; on the
  fallback path the options carry the format \<open>bestaudio/best\<close> and one
  audio-extraction postprocessor naming the codec.
\<close>

theorem audio_format_override:
  assumes "format_var a = ''mp3'' \<or> format_var a = ''m4a''"
  shows "(find_yt_dlp_exe e = Some exe \<and> exe \<noteq> [] \<longrightarrow>
            download_attempt e a url =
              run_cmd (popen e)
                ([exe, ''--extract-audio'', ''--audio-format'', format_var a,
                  ''-f'', ''bestaudio/best'', ''-o'', path_join (download_path a) ''%(title)s.%(ext)s'']
                 @ ffmpeg_args (locate_ffmpeg e) @ [''--newline'', url] @ ffmpeg_args (locate_ffmpeg e))
                (Some progress_cb) [])
       \<and> (\<not> truthy (find_yt_dlp_exe e) \<and> yt_dlp e = Some lib \<longrightarrow>
            (\<exists>opts. download_attempt e a url = post_progress (lib opts [url])
               \<and> opt_format opts = ''bestaudio/best''
               \<and> opt_postprocessors opts =
                   [\<lparr>pp_key = ''FFmpegExtractAudio'', preferredcodec = format_var a,
                     preferredquality = ''192''\<rparr>]))"
proof (intro conjI impI)
  assume h: "find_yt_dlp_exe e = Some exe \<and> exe \<noteq> []"
  from assms h show "download_attempt e a url =
      run_cmd (popen e)
        ([exe, ''--extract-audio'', ''--audio-format'', format_var a,
          ''-f'', ''bestaudio/best'', ''-o'', path_join (download_path a) ''%(title)s.%(ext)s'']
         @ ffmpeg_args (locate_ffmpeg e) @ [''--newline'', url] @ ffmpeg_args (locate_ffmpeg e))
        (Some progress_cb) []"
    by (auto simp: download_attempt_def run_yt_dlp_download_def build_cmd_def ffmpeg_args_def Let_def)
next
  assume h: "\<not> truthy (find_yt_dlp_exe e) \<and> yt_dlp e = Some lib"
  from assms h show "\<exists>opts. download_attempt e a url = post_progress (lib opts [url])
      \<and> opt_format opts = ''bestaudio/best''
      \<and> opt_postprocessors opts =
          [\<lparr>pp_key = ''FFmpegExtractAudio'', preferredcodec = format_var a,
            preferredquality = ''192''\<rparr>]"
    by (auto simp: download_attempt_def Let_def)
qed

theorem audio_format_override_witness:
  "(format_var mp3_app = ''mp3'' \<or> format_var mp3_app = ''m4a'')
   \<and> find_yt_dlp_exe (exe_env failing_process) = Some ''yt-dlp'' \<and> ''yt-dlp'' \<noteq> []
   \<and> download_attempt (exe_env failing_process) mp3_app ''https://youtu.be/abcdefghijk'' =
       run_cmd failing_process
         [''yt-dlp'', ''--extract-audio'', ''--audio-format'', ''mp3'',
          ''-f'', ''bestaudio/best'', ''-o'', ''/tmp/%(title)s.%(ext)s'',
          ''--newline'', ''https://youtu.be/abcdefghijk'']
         (Some progress_cb) []"
  using audio_format_override [of mp3_app "exe_env failing_process" "''yt-dlp''" "''https://youtu.be/abcdefghijk''"]
  by (simp add: mp3_app_def exe_env_def ffmpeg_args_def path_join_def)




text \<open>
  C10. The validator looks only at the start of the text, and the positional form may
  be absent: any head followed at once by eleven characters other than \<open>&\<close>, \<open>=\<close>,
  \<open>%\<close>, \<open>?\<close> is accepted, and an accepted text stays accepted with anything
  appended.
\<close>

theorem validator_accepts_prefix_and_bare_id:
  "(h \<in> set url_heads \<and> length i = 11 \<and> list_all id_char i \<longrightarrow> is_valid_youtube_url (h @ i))
   \<and> (is_valid_youtube_url u \<longrightarrow> is_valid_youtube_url (u @ t))
   \<and> is_valid_youtube_url ''youtube.com/abcdefghijk''"
proof (intro conjI impI)
  assume a: "h \<in> set url_heads \<and> length i = 11 \<and> list_all id_char i"
  then have "i \<in> lang video_id_rx" by (simp only: lang_video_id)
  moreover have "[] \<in> lang form_rx" by (simp add: lang_form_rx)
  moreover have "h @ i = h @ [] @ i @ []" by simp
  ultimately show "is_valid_youtube_url (h @ i)"
    unfolding is_valid_iff_lang using a by blast
next
  assume "is_valid_youtube_url u"
  then obtain h f i r where
    h: "u = h @ f @ i @ r" "h \<in> set url_heads" "f \<in> lang form_rx" "i \<in> lang video_id_rx"
    unfolding is_valid_iff_lang by blast
  have "u @ t = h @ f @ i @ (r @ t)" by (simp only: h(1) append_assoc)
  with h(2,3,4) show "is_valid_youtube_url (u @ t)"
    unfolding is_valid_iff_lang by blast
next
  show "is_valid_youtube_url ''youtube.com/abcdefghijk''" by code_simp
qed

theorem validator_accepts_prefix_and_bare_id_witness:
  "''youtu.be/'' \<in> set url_heads \<and> length ''abc def_-/k'' = 11 \<and> list_all id_char ''abc def_-/k''
   \<and> is_valid_youtube_url (''youtu.be/'' @ ''abc def_-/k'')
   \<and> is_valid_youtube_url ''https://youtu.be/abcdefghijk''
   \<and> is_valid_youtube_url (''https://youtu.be/abcdefghijk'' @ '' is not a URL'')"
proof -
  have a: "''youtu.be/'' \<in> set url_heads" by code_simp
  have b: "length ''abc def_-/k'' = 11" by simp
  have c: "list_all id_char ''abc def_-/k''" by code_simp
  have d: "is_valid_youtube_url ''https://youtu.be/abcdefghijk''" by code_simp
  from a b c d
    validator_accepts_prefix_and_bare_id
      [of "''youtu.be/''" "''abc def_-/k''" "''https://youtu.be/abcdefghijk''" "'' is not a URL''"]
  show ?thesis by blast
qed

text \<open>
  C5. Reading the output calls the callback once per line, in the order of the lines,
  with the stripped line and with \<open>line_percent\<close> of it: the number captured by the
  decimal pattern if that one matches, else by the integer pattern, else the sentinel
  \<open>-1\<close>; the \<^verbatim>\<open>except\<close> branch is never taken. The sentinel is reported exactly
  for the lines in which no digit is directly followed by a percent sign. The line
  \<open>12.3% of 10MiB\<close> reports the float 12.3, \<open>Downloading...\<close> reports the sentinel,
  and a decimal percentage wins over an integer one to its left.
\<close>

theorem progress_lines_parsed:
  "read_lines (Some f) ls s = fold (\<lambda>raw. f (line_percent (strip raw)) (strip raw)) ls s
   \<and> handle_line (Some f) raw s = f (line_percent (strip raw)) (strip raw) s
   \<and> (line_percent l = - 1 \<longleftrightarrow> \<not> has_digit_percent l)
   \<and> line_percent ''12.3% of 10MiB'' = binary64 (123 / 10)
   \<and> line_percent ''Downloading...'' = - 1
   \<and> line_percent ''50% 12.3%'' = binary64 (123 / 10)
   \<and> read_lines (Some (\<lambda>p l log. log @ [(p, l)])) [''12.3% of 10MiB'', ''Downloading...''] []
        = [(binary64 (123 / 10), ''12.3% of 10MiB''), (- 1, ''Downloading...'')]"
proof -
  have a: "line_percent ''12.3% of 10MiB'' = binary64 (123 / 10)" by code_simp
  have b: "line_percent ''Downloading...'' = - 1" by code_simp
  have c: "line_percent ''50% 12.3%'' = binary64 (123 / 10)" by code_simp
  have s: "strip ''12.3% of 10MiB'' = ''12.3% of 10MiB''" "strip ''Downloading...'' = ''Downloading...''"
    by code_simp+
  have d: "read_lines (Some (\<lambda>p l log. log @ [(p, l)])) [''12.3% of 10MiB'', ''Downloading...''] []
        = [(binary64 (123 / 10), ''12.3% of 10MiB''), (- 1, ''Downloading...'')]"
    by (simp only: read_lines_fold fold_simps s a b id_apply o_apply append_Nil append_Cons)
  have e: "handle_line (Some f) raw s = f (line_percent (strip raw)) (strip raw) s"
    by (simp add: handle_line_eq)
  from a b c d e read_lines_fold [of f ls s] line_percent_unknown_iff [of l]
  show ?thesis by blast
qed

text \<open>
  C9 (amended). The percent forwarded for a line is the sentinel \<open>-1\<close> or a number
  from 0 to 1000 (the patterns capture at most three integer digits and one decimal);
  nothing limits it to 100. The worker's callback posts exactly that number with the
  stripped line, one progress call per line.
\<close>

theorem forwarded_percent_range:
  "(line_percent l = - 1 \<or> 0 \<le> line_percent l \<and> line_percent l \<le> 1000)
   \<and> read_lines (Some progress_cb) ls posted
        = posted @ map (\<lambda>raw. UpdateProgress (line_percent (strip raw)) (strip raw)) ls"
proof
  show "line_percent l = - 1 \<or> 0 \<le> line_percent l \<and> line_percent l \<le> 1000"
    by (rule line_percent_range)
next
  show "read_lines (Some progress_cb) ls posted
        = posted @ map (\<lambda>raw. UpdateProgress (line_percent (strip raw)) (strip raw)) ls"
    by (rule read_lines_progress_cb)
qed

theorem percent_above_100_counterexample:
  "read_lines (Some progress_cb) [''[download] 150% of 10MiB''] []
     = [UpdateProgress 150 ''[download] 150% of 10MiB'']
   \<and> \<not> (150 :: rat) \<le> 100 \<and> (150 :: rat) \<noteq> - 1"
proof -
  have "line_percent ''[download] 150% of 10MiB'' = 150" by code_simp
  moreover have "strip ''[download] 150% of 10MiB'' = ''[download] 150% of 10MiB''" by code_simp
  ultimately have "handle_line (Some progress_cb) ''[download] 150% of 10MiB'' []
     = [UpdateProgress 150 ''[download] 150% of 10MiB'']"
    by (simp add: handle_line_eq progress_cb_def)
  then show ?thesis by simp
qed

text \<open>
  C1. Whatever the worker finds, it posts progress calls and then exactly one
  completion call, its last; once the foreground thread has run the calls, the
  active-download flag is off, in particular after a start request that passed the
  guards (which had switched it on). The completion follows from what the command the
  worker runs, \<open>worker_cmd\<close>, does: if that process exits with code 0 the completion
  reports success; with any other code it reports failure with the message
  \<open>Download failed: yt-dlp exited with\<close> and the code; if reading its output fails, or the
  process cannot be started, it reports that error. Without an executable it reports
  the failed import when the library is missing, and else what the library's download
  with \<open>worker_opts\<close> ended with. The external process is taken as one that ends.
\<close>

theorem download_worker_completes:
  "(\<exists>ps ok msg. download_thread e a url = ps @ [DownloadComplete ok msg] \<and> list_all is_progress ps)
   \<and> is_downloading (run_ui (download_thread e a url) a') = False
   \<and> (start_download path_exists a0 = (a, Some url) \<longrightarrow>
         is_downloading a \<and> \<not> is_downloading (run_ui (download_thread e a url) a))
   \<and> (truthy (find_yt_dlp_exe e) \<and> popen e (worker_cmd e a url) = Exits out rc \<longrightarrow>
         download_thread e a url =
           progress_calls out @
           [if rc = 0 then DownloadComplete True ''Download completed successfully!''
            else DownloadComplete False (''Download failed: yt-dlp exited with '' @ show_int rc)])
   \<and> (truthy (find_yt_dlp_exe e) \<and> popen e (worker_cmd e a url) = ReadFails out err rc \<longrightarrow>
         download_thread e a url =
           progress_calls out @ [DownloadComplete False (''Download failed: '' @ str_of err)])
   \<and> (truthy (find_yt_dlp_exe e) \<and> popen e (worker_cmd e a url) = CannotStart err \<longrightarrow>
         download_thread e a url = [DownloadComplete False (''Download failed: '' @ str_of err)])
   \<and> (\<not> truthy (find_yt_dlp_exe e) \<and> yt_dlp e = None \<longrightarrow>
         download_thread e a url =
           [DownloadComplete False (''Download failed: No module named '' @ [CHR 0x27] @ ''yt_dlp'' @ [CHR 0x27])])
   \<and> (\<not> truthy (find_yt_dlp_exe e) \<and> yt_dlp e = Some lib \<longrightarrow>
         download_thread e a url =
           map (\<lambda>(percent, status). UpdateProgress percent status) (fst (lib (worker_opts e a) [url])) @
           [case snd (lib (worker_opts e a) [url]) of
              Inr u \<Rightarrow> DownloadComplete True ''Download completed successfully!''
            | Inl err \<Rightarrow> DownloadComplete False (''Download failed: '' @ str_of err)])"
proof (intro conjI impI)
  obtain ok msg where c: "completion (snd (download_attempt e a url)) = DownloadComplete ok msg"
    using completion_shape by blast
  then have eq: "download_thread e a url = fst (download_attempt e a url) @ [DownloadComplete ok msg]"
    by (simp add: download_thread_eq)
  with download_attempt_progress [of e a url]
  show "\<exists>ps ok msg. download_thread e a url = ps @ [DownloadComplete ok msg] \<and> list_all is_progress ps"
    by blast
  show "is_downloading (run_ui (download_thread e a url) a') = False"
    by (simp only: eq run_ui_complete)
  show "\<not> is_downloading (run_ui (download_thread e a url) a)"
    by (simp only: eq run_ui_complete) simp
next
  assume "start_download path_exists a0 = (a, Some url)"
  then show "is_downloading a"
    by (auto simp: start_download_def Let_def split: if_splits)
next
  assume h: "truthy (find_yt_dlp_exe e) \<and> popen e (worker_cmd e a url) = Exits out rc"
  then have "download_attempt e a url =
      (progress_calls out,
       if rc \<noteq> 0 then Inl (RuntimeError (''yt-dlp exited with '' @ show_int rc)) else Inr ())"
    by (simp add: download_attempt_exe run_cmd_exits read_lines_progress_calls)
  then show "download_thread e a url =
           progress_calls out @
           [if rc = 0 then DownloadComplete True ''Download completed successfully!''
            else DownloadComplete False (''Download failed: yt-dlp exited with '' @ show_int rc)]"
    by (simp add: download_thread_eq completion_def)
next
  assume h: "truthy (find_yt_dlp_exe e) \<and> popen e (worker_cmd e a url) = ReadFails out err rc"
  then have "download_attempt e a url = (progress_calls out, Inl err)"
    by (simp add: download_attempt_exe run_cmd_read_fails read_lines_progress_calls)
  then show "download_thread e a url =
           progress_calls out @ [DownloadComplete False (''Download failed: '' @ str_of err)]"
    by (simp add: download_thread_eq completion_def)
next
  assume h: "truthy (find_yt_dlp_exe e) \<and> popen e (worker_cmd e a url) = CannotStart err"
  then have "download_attempt e a url = ([], Inl err)"
    by (simp add: download_attempt_exe run_cmd_cannot_start)
  then show "download_thread e a url = [DownloadComplete False (''Download failed: '' @ str_of err)]"
    by (simp add: download_thread_eq completion_def)
next
  assume h: "\<not> truthy (find_yt_dlp_exe e) \<and> yt_dlp e = None"
  then show "download_thread e a url =
           [DownloadComplete False (''Download failed: No module named '' @ [CHR 0x27] @ ''yt_dlp'' @ [CHR 0x27])]"
    by (simp add: download_thread_eq completion_def download_attempt_no_lib)
next
  assume h: "\<not> truthy (find_yt_dlp_exe e) \<and> yt_dlp e = Some lib"
  then have "download_attempt e a url = post_progress (lib (worker_opts e a) [url])"
    using download_attempt_lib by blast
  then show "download_thread e a url =
           map (\<lambda>(percent, status). UpdateProgress percent status) (fst (lib (worker_opts e a) [url])) @
           [case snd (lib (worker_opts e a) [url]) of
              Inr u \<Rightarrow> DownloadComplete True ''Download completed successfully!''
            | Inl err \<Rightarrow> DownloadComplete False (''Download failed: '' @ str_of err)]"
    by (simp add: download_thread_eq completion_def post_progress_def)
qed

theorem download_worker_completes_witness:
  "start_download (\<lambda>d. True) idle_app = (started_app, Some ''https://youtu.be/abcdefghijk'')
   \<and> is_downloading started_app
   \<and> truthy (find_yt_dlp_exe (exe_env picky_process))
   \<and> popen (exe_env picky_process)
         (worker_cmd (exe_env picky_process) started_app ''https://youtu.be/abcdefghijk'')
        = Exits [''[download] 100% of 10MiB''] 0
   \<and> download_thread (exe_env picky_process) started_app ''https://youtu.be/abcdefghijk''
        = [UpdateProgress 100 ''[download] 100% of 10MiB'',
           DownloadComplete True ''Download completed successfully!'']
   \<and> \<not> is_downloading (run_ui (download_thread (exe_env picky_process) started_app
          ''https://youtu.be/abcdefghijk'') started_app)
   \<and> popen (exe_env picky_process)
         (worker_cmd (exe_env picky_process) mp3_app ''https://youtu.be/abcdefghijk'')
        = Exits [''ERROR: ffmpeg not found''] 1
   \<and> download_thread (exe_env picky_process) mp3_app ''https://youtu.be/abcdefghijk''
        = [UpdateProgress (- 1) ''ERROR: ffmpeg not found'',
           DownloadComplete False ''Download failed: yt-dlp exited with 1'']
   \<and> popen (exe_env garbled_process)
         (worker_cmd (exe_env garbled_process) started_app ''https://youtu.be/abcdefghijk'')
        = ReadFails [''[download]  10.0% of 10MiB'']
           (UnicodeDecodeError ''utf-8 codec cannot decode byte 0xff in position 0: invalid start byte'') 0
   \<and> download_thread (exe_env garbled_process) started_app ''https://youtu.be/abcdefghijk''
        = [UpdateProgress 10 ''[download]  10.0% of 10MiB'',
           DownloadComplete False
             ''Download failed: utf-8 codec cannot decode byte 0xff in position 0: invalid start byte'']
   \<and> popen (exe_env no_process)
         (worker_cmd (exe_env no_process) started_app ''https://youtu.be/abcdefghijk'')
        = CannotStart (OSError ''[Errno 8] Exec format error'')
   \<and> download_thread (exe_env no_process) started_app ''https://youtu.be/abcdefghijk''
        = [DownloadComplete False ''Download failed: [Errno 8] Exec format error'']
   \<and> \<not> truthy (find_yt_dlp_exe (lib_env None)) \<and> yt_dlp (lib_env None) = None
   \<and> download_thread (lib_env None) started_app ''https://youtu.be/abcdefghijk''
        = [DownloadComplete False (''Download failed: No module named '' @ [CHR 0x27] @ ''yt_dlp'' @ [CHR 0x27])]
   \<and> yt_dlp (lib_env (Some failing_lib)) = Some failing_lib
   \<and> download_thread (lib_env (Some failing_lib)) started_app ''https://youtu.be/abcdefghijk''
        = [UpdateProgress 50 ''Downloading... 50.0%'',
           DownloadComplete False ''Download failed: ERROR: unable to download'']"
proof -
  have s: "strip (url_var idle_app) = ''https://youtu.be/abcdefghijk''" by code_simp
  have v: "is_valid_youtube_url ''https://youtu.be/abcdefghijk''" by code_simp
  have st: "start_download (\<lambda>d. True) idle_app = (started_app, Some ''https://youtu.be/abcdefghijk'')"
    using v by (simp add: start_download_def s Let_def) (simp add: idle_app_def started_app_def)
  have t: "truthy (find_yt_dlp_exe (exe_env p))" "popen (exe_env p) = p" for p
    by (simp_all add: exe_env_def)
  have c0: "picky_process (worker_cmd (exe_env picky_process) started_app ''https://youtu.be/abcdefghijk'')
        = Exits [''[download] 100% of 10MiB''] 0"
    by code_simp
  have c1: "picky_process (worker_cmd (exe_env picky_process) mp3_app ''https://youtu.be/abcdefghijk'')
        = Exits [''ERROR: ffmpeg not found''] 1"
    by code_simp
  have cg: "garbled_process (worker_cmd (exe_env garbled_process) started_app ''https://youtu.be/abcdefghijk'')
        = ReadFails [''[download]  10.0% of 10MiB'']
           (UnicodeDecodeError ''utf-8 codec cannot decode byte 0xff in position 0: invalid start byte'') 0"
    by (simp add: garbled_process_def)
  have cn: "no_process (worker_cmd (exe_env no_process) started_app ''https://youtu.be/abcdefghijk'')
        = CannotStart (OSError ''[Errno 8] Exec format error'')"
    by (simp add: no_process_def)
  have l0: "\<not> truthy (find_yt_dlp_exe (lib_env l))" "yt_dlp (lib_env l) = l" for l
    by (simp_all add: lib_env_def)
  have fl: "failing_lib opts urls = ([(50, ''Downloading... 50.0%'')], Inl (LibraryError ''ERROR: unable to download''))"
    for opts urls
    by (simp add: failing_lib_def)
  have sh: "show_int 1 = ''1''" by code_simp
  have p0: "progress_calls [''[download] 100% of 10MiB''] = [UpdateProgress 100 ''[download] 100% of 10MiB'']"
    by code_simp
  have p1: "progress_calls [''ERROR: ffmpeg not found''] = [UpdateProgress (- 1) ''ERROR: ffmpeg not found'']"
    by code_simp
  have pg: "progress_calls [''[download]  10.0% of 10MiB''] = [UpdateProgress 10 ''[download]  10.0% of 10MiB'']"
    by code_simp
  note w = download_worker_completes
  from st t c0 p0
    w [of "exe_env picky_process" started_app "''https://youtu.be/abcdefghijk''" started_app
         "\<lambda>d. True" idle_app "[''[download] 100% of 10MiB'']" 0]
  have r: "is_downloading started_app"
    "download_thread (exe_env picky_process) started_app ''https://youtu.be/abcdefghijk''
        = [UpdateProgress 100 ''[download] 100% of 10MiB'',
           DownloadComplete True ''Download completed successfully!'']"
    by simp_all
  from st
    w [of "exe_env picky_process" started_app "''https://youtu.be/abcdefghijk''" started_app
         "\<lambda>d. True" idle_app]
  have 1: "is_downloading started_app"
    "download_thread (exe_env picky_process) started_app ''https://youtu.be/abcdefghijk''
        = [UpdateProgress 100 ''[download] 100% of 10MiB'',
           DownloadComplete True ''Download completed successfully!'']"
    "\<not> is_downloading (run_ui (download_thread (exe_env picky_process) started_app
          ''https://youtu.be/abcdefghijk'') started_app)"
    using r by blast+
  from t c1 p1 sh
    w [of "exe_env picky_process" mp3_app "''https://youtu.be/abcdefghijk''" started_app
         "\<lambda>d. True" idle_app "[''ERROR: ffmpeg not found'']" 1]
  have 2: "download_thread (exe_env picky_process) mp3_app ''https://youtu.be/abcdefghijk''
        = [UpdateProgress (- 1) ''ERROR: ffmpeg not found'',
           DownloadComplete False ''Download failed: yt-dlp exited with 1'']"
    by simp
  from t cg pg
    w [of "exe_env garbled_process" started_app "''https://youtu.be/abcdefghijk''" started_app
         "\<lambda>d. True" idle_app "[''[download]  10.0% of 10MiB'']" 0
         "UnicodeDecodeError ''utf-8 codec cannot decode byte 0xff in position 0: invalid start byte''"]
  have 3: "download_thread (exe_env garbled_process) started_app ''https://youtu.be/abcdefghijk''
        = [UpdateProgress 10 ''[download]  10.0% of 10MiB'',
           DownloadComplete False
             ''Download failed: utf-8 codec cannot decode byte 0xff in position 0: invalid start byte'']"
    by simp
  from t cn
    w [of "exe_env no_process" started_app "''https://youtu.be/abcdefghijk''" started_app
         "\<lambda>d. True" idle_app "[]" 0 "OSError ''[Errno 8] Exec format error''"]
  have 4: "download_thread (exe_env no_process) started_app ''https://youtu.be/abcdefghijk''
        = [DownloadComplete False ''Download failed: [Errno 8] Exec format error'']"
    by simp
  from l0 [of None]
    w [of "lib_env None" started_app "''https://youtu.be/abcdefghijk''" started_app
         "\<lambda>d. True" idle_app "[]" 0]
  have 5: "download_thread (lib_env None) started_app ''https://youtu.be/abcdefghijk''
        = [DownloadComplete False (''Download failed: No module named '' @ [CHR 0x27] @ ''yt_dlp'' @ [CHR 0x27])]"
    by simp
  from l0 [of "Some failing_lib"] fl
    w [of "lib_env (Some failing_lib)" started_app "''https://youtu.be/abcdefghijk''" started_app
         "\<lambda>d. True" idle_app "[]" 0 _ failing_lib]
  have 6: "download_thread (lib_env (Some failing_lib)) started_app ''https://youtu.be/abcdefghijk''
        = [UpdateProgress 50 ''Downloading... 50.0%'',
           DownloadComplete False ''Download failed: ERROR: unable to download'']"
    by simp
  from 1(3) have 7: "\<not> is_downloading (run_ui (download_thread (exe_env picky_process) started_app
          ''https://youtu.be/abcdefghijk'') started_app)" .
  have hyp: "popen (exe_env picky_process)
         (worker_cmd (exe_env picky_process) started_app ''https://youtu.be/abcdefghijk'')
        = Exits [''[download] 100% of 10MiB''] 0"
    "popen (exe_env picky_process)
         (worker_cmd (exe_env picky_process) mp3_app ''https://youtu.be/abcdefghijk'')
        = Exits [''ERROR: ffmpeg not found''] 1"
    "popen (exe_env garbled_process)
         (worker_cmd (exe_env garbled_process) started_app ''https://youtu.be/abcdefghijk'')
        = ReadFails [''[download]  10.0% of 10MiB'']
           (UnicodeDecodeError ''utf-8 codec cannot decode byte 0xff in position 0: invalid start byte'') 0"
    "popen (exe_env no_process)
         (worker_cmd (exe_env no_process) started_app ''https://youtu.be/abcdefghijk'')
        = CannotStart (OSError ''[Errno 8] Exec format error'')"
    using c0 c1 cg cn by (simp_all only: t(2))
  from st t(1) [of picky_process] hyp l0 [of None] l0(2) [of "Some failing_lib"] 1(1,2) 7 2 3 4 5 6
  show ?thesis by blast
qed

text \<open>
  C2 (amended). A start request arriving while a download is active is always
  rejected: no worker is started and the state is unchanged but for one more message
  box. The message is that of the first guard that fails, in the source's order: empty
  URL, invalid URL, missing folder, and only then \<open>Download already in progress\<close>.
\<close>

theorem second_start_rejected:
  "is_downloading a \<longrightarrow>
     start_download path_exists a =
       (a\<lparr>dialogs := dialogs a @
            [if strip (url_var a) = [] then ShowWarning ''Warning'' ''Please enter a YouTube URL''
             else if \<not> is_valid_youtube_url (strip (url_var a))
               then ShowError ''Error'' ''Please enter a valid YouTube URL''
             else if \<not> path_exists (download_path a)
               then ShowError ''Error'' ''Download folder does not exist''
             else ShowWarning ''Warning'' ''Download already in progress'']\<rparr>,
        None)"
  by (simp add: start_download_def Let_def)

theorem second_start_rejected_witness:
  "is_downloading mp3_app
   \<and> start_download (\<lambda>d. True) mp3_app
       = (mp3_app\<lparr>dialogs := [ShowWarning ''Warning'' ''Download already in progress'']\<rparr>, None)
   \<and> is_downloading (mp3_app\<lparr>url_var := ''not a url''\<rparr>)
   \<and> start_download (\<lambda>d. True) (mp3_app\<lparr>url_var := ''not a url''\<rparr>)
       = (mp3_app\<lparr>url_var := ''not a url'',
                   dialogs := [ShowError ''Error'' ''Please enter a valid YouTube URL'']\<rparr>, None)
   \<and> start_download (\<lambda>d. False) mp3_app
       = (mp3_app\<lparr>dialogs := [ShowError ''Error'' ''Download folder does not exist'']\<rparr>, None)"
proof -
  have a: "is_downloading mp3_app" "dialogs mp3_app = []" "download_path mp3_app = ''/tmp''"
    by (simp_all add: mp3_app_def)
  have s: "strip (url_var mp3_app) = ''https://youtu.be/abcdefghijk''" by code_simp
  have v: "is_valid_youtube_url ''https://youtu.be/abcdefghijk''" by code_simp
  have s2: "strip ''not a url'' = ''not a url''" by code_simp
  have v2: "\<not> is_valid_youtube_url ''not a url''" by code_simp
  from a s v second_start_rejected [of mp3_app "\<lambda>d. True"]
  have 1: "start_download (\<lambda>d. True) mp3_app
       = (mp3_app\<lparr>dialogs := [ShowWarning ''Warning'' ''Download already in progress'']\<rparr>, None)"
    by simp
  from a s2 v2 second_start_rejected [of "mp3_app\<lparr>url_var := ''not a url''\<rparr>" "\<lambda>d. True"]
  have 2: "start_download (\<lambda>d. True) (mp3_app\<lparr>url_var := ''not a url''\<rparr>)
       = (mp3_app\<lparr>url_var := ''not a url'',
                   dialogs := [ShowError ''Error'' ''Please enter a valid YouTube URL'']\<rparr>, None)"
    by simp
  from a s v second_start_rejected [of mp3_app "\<lambda>d. False"]
  have 3: "start_download (\<lambda>d. False) mp3_app
       = (mp3_app\<lparr>dialogs := [ShowError ''Error'' ''Download folder does not exist'']\<rparr>, None)"
    by simp
  from a(1) 1 2 3 show ?thesis by simp
qed

theorem second_start_other_report_counterexample:
  "is_downloading (mp3_app\<lparr>url_var := ''''\<rparr>)
   \<and> start_download (\<lambda>d. True) (mp3_app\<lparr>url_var := ''''\<rparr>)
       = (mp3_app\<lparr>url_var := '''', dialogs := [ShowWarning ''Warning'' ''Please enter a YouTube URL'']\<rparr>, None)
   \<and> ShowWarning ''Warning'' ''Please enter a YouTube URL''
       \<noteq> ShowWarning ''Warning'' ''Download already in progress''"
proof -
  have s: "strip '''' = ''''" by code_simp
  show ?thesis by (simp add: start_download_def s mp3_app_def)
qed

text \<open>
  C6 (amended). When the process runs and its output is read to the end, the runner
  has read all the lines before it looks at the exit code, and raises exactly when
  the code is not zero; the error raised is \<open>yt-dlp exited with\<close> and the code, whatever
  the process wrote: the lines go to the progress callback only. When reading the
  output fails, that error is raised whatever the exit code, and when the process
  cannot be started, that error is raised.
\<close>

theorem runner_raises_iff_nonzero_exit:
  "(p (build_cmd exe url outtmpl fmt ffmpeg extra) = Exits out rc \<longrightarrow>
      fst (run_yt_dlp_download p exe url outtmpl fmt ffmpeg cb extra s) = read_lines cb out s
      \<and> (isl (snd (run_yt_dlp_download p exe url outtmpl fmt ffmpeg cb extra s)) \<longleftrightarrow> rc \<noteq> 0)
      \<and> (rc \<noteq> 0 \<longrightarrow> snd (run_yt_dlp_download p exe url outtmpl fmt ffmpeg cb extra s)
             = Inl (RuntimeError (''yt-dlp exited with '' @ show_int rc))))
   \<and> (p (build_cmd exe url outtmpl fmt ffmpeg extra) = ReadFails out err rc \<longrightarrow>
        run_yt_dlp_download p exe url outtmpl fmt ffmpeg cb extra s = (read_lines cb out s, Inl err))
   \<and> (p (build_cmd exe url outtmpl fmt ffmpeg extra) = CannotStart err \<longrightarrow>
        run_yt_dlp_download p exe url outtmpl fmt ffmpeg cb extra s = (s, Inl err))"
  by (simp add: run_yt_dlp_download_def run_cmd_exits run_cmd_read_fails run_cmd_cannot_start)

theorem runner_raises_iff_nonzero_exit_witness:
  "failing_process (build_cmd ''yt-dlp'' ''u'' ''o'' ''best'' None None)
     = Exits [''[download]  42.0% of 10MiB'', ''ERROR: video unavailable''] 1
   \<and> isl (snd (run_yt_dlp_download failing_process ''yt-dlp'' ''u'' ''o'' ''best'' None (Some progress_cb) None []))
   \<and> snd (run_yt_dlp_download failing_process ''yt-dlp'' ''u'' ''o'' ''best'' None (Some progress_cb) None [])
       = Inl (RuntimeError ''yt-dlp exited with 1'')
   \<and> ok_process (build_cmd ''yt-dlp'' ''u'' ''o'' ''best'' None None)
       = Exits [''[download] 100% of 10MiB''] 0
   \<and> \<not> isl (snd (run_yt_dlp_download ok_process ''yt-dlp'' ''u'' ''o'' ''best'' None (Some progress_cb) None []))
   \<and> garbled_process (build_cmd ''yt-dlp'' ''u'' ''o'' ''best'' None None)
       = ReadFails [''[download]  10.0% of 10MiB'']
           (UnicodeDecodeError ''utf-8 codec cannot decode byte 0xff in position 0: invalid start byte'') 0
   \<and> snd (run_yt_dlp_download garbled_process ''yt-dlp'' ''u'' ''o'' ''best'' None (Some progress_cb) None [])
       = Inl (UnicodeDecodeError ''utf-8 codec cannot decode byte 0xff in position 0: invalid start byte'')
   \<and> no_process (build_cmd ''yt-dlp'' ''u'' ''o'' ''best'' None None)
       = CannotStart (OSError ''[Errno 8] Exec format error'')
   \<and> run_yt_dlp_download no_process ''yt-dlp'' ''u'' ''o'' ''best'' None (Some progress_cb) None []
       = ([], Inl (OSError ''[Errno 8] Exec format error''))"
proof -
  have h: "failing_process (build_cmd ''yt-dlp'' ''u'' ''o'' ''best'' None None)
     = Exits [''[download]  42.0% of 10MiB'', ''ERROR: video unavailable''] 1"
    by (simp add: failing_process_def)
  have k: "ok_process (build_cmd ''yt-dlp'' ''u'' ''o'' ''best'' None None)
       = Exits [''[download] 100% of 10MiB''] 0"
    by (simp add: ok_process_def)
  have g: "garbled_process (build_cmd ''yt-dlp'' ''u'' ''o'' ''best'' None None)
       = ReadFails [''[download]  10.0% of 10MiB'']
           (UnicodeDecodeError ''utf-8 codec cannot decode byte 0xff in position 0: invalid start byte'') 0"
    by (simp add: garbled_process_def)
  have n: "no_process (build_cmd ''yt-dlp'' ''u'' ''o'' ''best'' None None)
       = CannotStart (OSError ''[Errno 8] Exec format error'')"
    by (simp add: no_process_def)
  have s: "show_int 1 = ''1''" by code_simp
  note w = runner_raises_iff_nonzero_exit
  from h s w [of failing_process "''yt-dlp''" "''u''" "''o''" "''best''" None None _ 1 "Some progress_cb" "[]"]
  have 1: "isl (snd (run_yt_dlp_download failing_process ''yt-dlp'' ''u'' ''o'' ''best'' None (Some progress_cb) None []))"
    "snd (run_yt_dlp_download failing_process ''yt-dlp'' ''u'' ''o'' ''best'' None (Some progress_cb) None [])
       = Inl (RuntimeError ''yt-dlp exited with 1'')"
    by simp_all
  from k w [of ok_process "''yt-dlp''" "''u''" "''o''" "''best''" None None _ 0 "Some progress_cb" "[]"]
  have 2: "\<not> isl (snd (run_yt_dlp_download ok_process ''yt-dlp'' ''u'' ''o'' ''best'' None (Some progress_cb) None []))"
    by simp
  from g w [of garbled_process "''yt-dlp''" "''u''" "''o''" "''best''" None None _ 0 "Some progress_cb" "[]"
      "UnicodeDecodeError ''utf-8 codec cannot decode byte 0xff in position 0: invalid start byte''"]
  have 3: "snd (run_yt_dlp_download garbled_process ''yt-dlp'' ''u'' ''o'' ''best'' None (Some progress_cb) None [])
       = Inl (UnicodeDecodeError ''utf-8 codec cannot decode byte 0xff in position 0: invalid start byte'')"
    by simp
  from n w [of no_process "''yt-dlp''" "''u''" "''o''" "''best''" None None _ 0 "Some progress_cb" "[]"
      "OSError ''[Errno 8] Exec format error''"]
  have 4: "run_yt_dlp_download no_process ''yt-dlp'' ''u'' ''o'' ''best'' None (Some progress_cb) None []
       = ([], Inl (OSError ''[Errno 8] Exec format error''))"
    by simp
  from h k g n 1 2 3 4 show ?thesis by blast
qed

theorem runner_error_without_output_counterexample:
  "failing_process (build_cmd ''yt-dlp'' ''u'' ''o'' ''best'' None None)
       = Exits [''[download]  42.0% of 10MiB'', ''ERROR: video unavailable''] 1
   \<and> snd (run_yt_dlp_download failing_process ''yt-dlp'' ''u'' ''o'' ''best'' None (Some progress_cb) None [])
       = Inl (RuntimeError ''yt-dlp exited with 1'')
   \<and> \<not> sublist ''ERROR: video unavailable'' (str_of (RuntimeError ''yt-dlp exited with 1''))
   \<and> \<not> sublist ''[download]  42.0% of 10MiB'' (str_of (RuntimeError ''yt-dlp exited with 1''))
   \<and> garbled_process (build_cmd ''yt-dlp'' ''u'' ''o'' ''best'' None None)
       = ReadFails [''[download]  10.0% of 10MiB'']
           (UnicodeDecodeError ''utf-8 codec cannot decode byte 0xff in position 0: invalid start byte'') 0
   \<and> isl (snd (run_yt_dlp_download garbled_process ''yt-dlp'' ''u'' ''o'' ''best'' None (Some progress_cb) None []))"
proof -
  have h: "failing_process (build_cmd ''yt-dlp'' ''u'' ''o'' ''best'' None None)
     = Exits [''[download]  42.0% of 10MiB'', ''ERROR: video unavailable''] 1"
    by (simp add: failing_process_def)
  have g: "garbled_process (build_cmd ''yt-dlp'' ''u'' ''o'' ''best'' None None)
       = ReadFails [''[download]  10.0% of 10MiB'']
           (UnicodeDecodeError ''utf-8 codec cannot decode byte 0xff in position 0: invalid start byte'') 0"
    by (simp add: garbled_process_def)
  have s: "show_int 1 = ''1''" by code_simp
  have r: "snd (run_yt_dlp_download failing_process ''yt-dlp'' ''u'' ''o'' ''best'' None (Some progress_cb) None [])
       = Inl (RuntimeError ''yt-dlp exited with 1'')"
    using h s by (simp add: run_yt_dlp_download_def run_cmd_exits)
  have r2: "isl (snd (run_yt_dlp_download garbled_process ''yt-dlp'' ''u'' ''o'' ''best'' None (Some progress_cb) None []))"
    using g by (simp add: run_yt_dlp_download_def run_cmd_read_fails)
  have n1: "\<not> sublist ''ERROR: video unavailable'' (str_of (RuntimeError ''yt-dlp exited with 1''))"
    by code_simp
  have n2: "\<not> sublist ''[download]  42.0% of 10MiB'' (str_of (RuntimeError ''yt-dlp exited with 1''))"
    by code_simp
  from h g r r2 n1 n2 show ?thesis by blast
qed

text \<open>
  C8 (amended). For a view count \<open>n\<close> with \<open>0 < n < 2^53\<close>: from one million on the
  text is \<open>n / 1000000\<close> rounded to a nearest tenth and printed with one decimal,
  then \<open>M views\<close>; from one thousand on it is \<open>n / 1000\<close> rounded to a nearest tenth,
  then \<open>K views\<close>; below one thousand it is the count itself, then \<open>views\<close>. In
  \<open>show_tenths t\<close> the number printed is \<open>t / 10\<close>. The count 500 gives \<open>500 views\<close>,
  1500 gives \<open>1.5K views\<close>, 2300000 gives \<open>2.3M views\<close>. The count 0 gives
  \<open>Unknown views\<close>.
\<close>

theorem view_count_format:
  "(0 < n \<and> n < 2 ^ 53 \<longrightarrow>
      (1000000 \<le> n \<longrightarrow>
         (\<exists>t. view_str n = Inr (show_tenths t @ ''M views'')
             \<and> \<bar>of_int t - of_int n / 100000\<bar> \<le> (1 / 2 :: rat)))
    \<and> (1000 \<le> n \<and> n < 1000000 \<longrightarrow>
         (\<exists>t. view_str n = Inr (show_tenths t @ ''K views'')
             \<and> \<bar>of_int t - of_int n / 100\<bar> \<le> (1 / 2 :: rat)))
    \<and> (n < 1000 \<longrightarrow> view_str n = Inr (show_int n @ '' views'')))
   \<and> view_str 500 = Inr ''500 views''
   \<and> view_str 1500 = Inr ''1.5K views''
   \<and> view_str 2300000 = Inr ''2.3M views''"
proof (intro conjI impI)
  assume n: "0 < n \<and> n < 2 ^ 53" and big: "1000000 \<le> n"
  from scaled_view_str [of 100000 n "''M views''"] n big
  obtain t where "(case py_truediv n 1000000 of Inl e \<Rightarrow> Inl e | Inr q \<Rightarrow> Inr (format_1f q @ ''M views''))
              = (Inr (show_tenths t @ ''M views'') :: error + string)"
      "\<bar>of_int t - of_int n / 100000\<bar> \<le> (1 / 2 :: rat)"
    by auto
  moreover have "view_str n = (case py_truediv n 1000000 of Inl e \<Rightarrow> Inl e | Inr q \<Rightarrow> Inr (format_1f q @ ''M views''))"
    using n big by (simp add: view_str_def)
  ultimately show "\<exists>t. view_str n = Inr (show_tenths t @ ''M views'')
             \<and> \<bar>of_int t - of_int n / 100000\<bar> \<le> (1 / 2 :: rat)"
    by (simp only:) blast
next
  assume n: "0 < n \<and> n < 2 ^ 53" and mid: "1000 \<le> n \<and> n < 1000000"
  from scaled_view_str [of 100 n "''K views''"] n mid
  obtain t where "(case py_truediv n 1000 of Inl e \<Rightarrow> Inl e | Inr q \<Rightarrow> Inr (format_1f q @ ''K views''))
              = (Inr (show_tenths t @ ''K views'') :: error + string)"
      "\<bar>of_int t - of_int n / 100\<bar> \<le> (1 / 2 :: rat)"
    by auto
  moreover have "view_str n = (case py_truediv n 1000 of Inl e \<Rightarrow> Inl e | Inr q \<Rightarrow> Inr (format_1f q @ ''K views''))"
    using n mid by (simp add: view_str_def)
  ultimately show "\<exists>t. view_str n = Inr (show_tenths t @ ''K views'')
             \<and> \<bar>of_int t - of_int n / 100\<bar> \<le> (1 / 2 :: rat)"
    by (simp only:) blast
next
  assume "0 < n \<and> n < 2 ^ 53" "n < 1000"
  then show "view_str n = Inr (show_int n @ '' views'')" by (simp add: view_str_def)
next
  show "view_str 500 = Inr ''500 views''" by code_simp
  show "view_str 1500 = Inr ''1.5K views''" by code_simp
  show "view_str 2300000 = Inr ''2.3M views''" by code_simp
qed

theorem view_count_format_witness:
  "(0 :: int) < 1050 \<and> (1050 :: int) < 2 ^ 53 \<and> (1000 :: int) \<le> 1050 \<and> (1050 :: int) < 1000000
   \<and> (\<exists>t. view_str 1050 = Inr (show_tenths t @ ''K views'')
          \<and> \<bar>of_int t - of_int 1050 / 100\<bar> \<le> (1 / 2 :: rat))
   \<and> (0 :: int) < 1234567 \<and> (1234567 :: int) < 2 ^ 53 \<and> (1000000 :: int) \<le> 1234567
   \<and> (\<exists>t. view_str 1234567 = Inr (show_tenths t @ ''M views'')
          \<and> \<bar>of_int t - of_int 1234567 / 100000\<bar> \<le> (1 / 2 :: rat))
   \<and> (0 :: int) < 7 \<and> (7 :: int) < 1000 \<and> view_str 7 = Inr (show_int 7 @ '' views'')"
  using view_count_format [of 1050] view_count_format [of 1234567] view_count_format [of 7]
  by simp

theorem view_count_zero_counterexample:
  "view_str 0 = Inr ''Unknown views'' \<and> show_int 0 @ '' views'' = ''0 views''
   \<and> view_str 0 \<noteq> Inr (show_int 0 @ '' views'')"
proof -
  have a: "view_str 0 = Inr ''Unknown views''" by (simp add: view_str_def)
  have b: "show_int 0 @ '' views'' = ''0 views''" by code_simp
  from a b show ?thesis by simp
qed

end
